theory Spec2Isabelle
  imports Complex_Main "HOL-Library.List_Lexorder" "HOL-Library.Char_ord" "HOL-Library.Multiset"
begin

section \<open>Configuration (sync.py, SyncConfig)\<close>

text \<open>
  The fields of \<^verbatim>\<open>SyncConfig\<close> that the retry pipeline and the rate limiter read.
  Python floats are modelled as reals (exact arithmetic), Python ints as \<open>int\<close>.
\<close>

record SyncConfig =
  max_batch_size :: int
  max_retries :: int
  base_retry_delay :: real
  max_retry_delay :: real
  requests_per_minute :: int
  requests_per_hour :: int

definition default_config :: SyncConfig where
  "default_config =
     \<lparr> max_batch_size = 50, max_retries = 5, base_retry_delay = 1, max_retry_delay = 60,
       requests_per_minute = 60, requests_per_hour = 1000 \<rparr>"

section \<open>Backoff (sync.py, SyncClient._calculate_backoff)\<close>

text \<open>
  \<^verbatim>\<open>delay = base_retry_delay * (2 ** attempt)\<close>,
  \<^verbatim>\<open>jitter = delay * 0.25 * (hash(time.time()) % 100) / 100\<close>,
  \<^verbatim>\<open>return min(delay + jitter, max_retry_delay)\<close>.
  The value \<open>h\<close> stands for \<^verbatim>\<open>hash(time.time())\<close>, an arbitrary integer;
  Python's \<^verbatim>\<open>%\<close> with a positive modulus is HOL's \<open>mod\<close> on \<open>int\<close>.
\<close>

definition calculate_backoff :: "SyncConfig \<Rightarrow> nat \<Rightarrow> int \<Rightarrow> real" where
  "calculate_backoff cfg attempt h =
     (let delay = base_retry_delay cfg * 2 ^ attempt;
          jitter = delay * 0.25 * real_of_int (h mod 100) / 100
      in min (delay + jitter) (max_retry_delay cfg))"

section \<open>Errors\<close>

text \<open>
  Exceptions are values. \<^verbatim>\<open>SyncError\<close> and its subclasses carry their message,
  \<^verbatim>\<open>RateLimitError\<close> also its \<^verbatim>\<open>retry_after\<close>; \<^verbatim>\<open>HTTPStatusError\<close> (httpx) carries the
  status code. \<^verbatim>\<open>LuaParseError\<close> is the parser's own exception.
\<close>

datatype error = ValueError | TypeError | IndexError | KeyError | LuaParseError
  | SyncError string | AuthenticationError string | RateLimitError string int
  | NetworkError string | HTTPStatusError nat

text \<open>\<^verbatim>\<open>isinstance(e, SyncError)\<close>: the base class and its subclasses.\<close>

fun is_SyncError :: "error \<Rightarrow> bool" where
  "is_SyncError (SyncError m) = True"
| "is_SyncError (AuthenticationError m) = True"
| "is_SyncError (RateLimitError m n) = True"
| "is_SyncError (NetworkError m) = True"
| "is_SyncError e = False"

text \<open>\<^verbatim>\<open>str(e)\<close> for the sync errors: the message.\<close>

fun error_str :: "error \<Rightarrow> string" where
  "error_str (SyncError m) = m"
| "error_str (AuthenticationError m) = m"
| "error_str (RateLimitError m n) = m"
| "error_str (NetworkError m) = m"
| "error_str e = []"

text \<open>Running a list of fallible steps: the first error wins, as a raised exception would.\<close>

fun sequence_sum :: "('e + 'a) list \<Rightarrow> 'e + 'a list" where
  "sequence_sum [] = Inr []"
| "sequence_sum (x # xs) =
     (case x of Inl e \<Rightarrow> Inl e
      | Inr v \<Rightarrow> (case sequence_sum xs of Inl e \<Rightarrow> Inl e | Inr vs \<Rightarrow> Inr (v # vs)))"

section \<open>Python values and JSON documents\<close>

text \<open>
  The payload of a sync item is a Python \<^verbatim>\<open>dict\<close>. Values are a datatype; a dict is an
  association list in insertion order. Dict keys are the hashable values that
  \<^verbatim>\<open>json.dumps\<close> accepts and whose text is fixed by their value: strings, ints, bools and
  \<^verbatim>\<open>None\<close> (float keys are left out; floats as values are reals).
\<close>

datatype pykey = KStr string | KInt int | KBool bool | KNone

datatype pyval = PNone | PBool bool | PInt int | PFloat real | PStr string
  | PList "pyval list" | PDict "(pykey \<times> pyval) list"

text \<open>
  The TEXT column \<^verbatim>\<open>data\<close> holds the output of \<^verbatim>\<open>json.dumps\<close>. The model keeps the JSON
  document that this text denotes instead of its characters: \<^verbatim>\<open>json.dumps\<close> maps a Python
  value to a document, \<^verbatim>\<open>json.loads\<close> maps a document to a Python value.
\<close>

datatype json = JNull | JBool bool | JInt int | JFloat real | JStr string
  | JArr "json list" | JObj "(string \<times> json) list"

text \<open>\<^verbatim>\<open>str(i)\<close> of an int: its decimal text, used by \<^verbatim>\<open>json.dumps\<close> for int keys.\<close>

definition digit_char :: "nat \<Rightarrow> char" where
  "digit_char d = char_of (48 + d)"

fun str_nat :: "nat \<Rightarrow> string" where
  "str_nat n = (if n < 10 then [digit_char n] else str_nat (n div 10) @ [digit_char (n mod 10)])"

definition str_int :: "int \<Rightarrow> string" where
  "str_int i = (if i < 0 then CHR ''-'' # str_nat (nat (- i)) else str_nat (nat i))"

text \<open>
  \<^verbatim>\<open>json.dumps\<close> coerces every dict key to a string: a str stays, an int becomes its decimal
  text, \<^verbatim>\<open>True\<close>/\<^verbatim>\<open>False\<close> become \<^verbatim>\<open>true\<close>/\<^verbatim>\<open>false\<close>, \<^verbatim>\<open>None\<close> becomes \<^verbatim>\<open>null\<close>.
\<close>

fun json_key :: "pykey \<Rightarrow> string" where
  "json_key (KStr s) = s"
| "json_key (KInt i) = str_int i"
| "json_key (KBool b) = (if b then ''true'' else ''false'')"
| "json_key KNone = ''null''"

fun json_dumps :: "pyval \<Rightarrow> json" where
  "json_dumps PNone = JNull"
| "json_dumps (PBool b) = JBool b"
| "json_dumps (PInt i) = JInt i"
| "json_dumps (PFloat r) = JFloat r"
| "json_dumps (PStr s) = JStr s"
| "json_dumps (PList xs) = JArr (map json_dumps xs)"
| "json_dumps (PDict kvs) = JObj (map (\<lambda>(k, v). (json_key k, json_dumps v)) kvs)"

text \<open>
  \<^verbatim>\<open>json.loads\<close>: an object becomes a dict with string keys, built by successive
  \<^verbatim>\<open>d[k] = v\<close>, so a repeated key keeps its first position and takes the last value.
  \<open>dict_set\<close> is \<^verbatim>\<open>d[k] = v\<close> on keys of one kind (here strings), where Python's key
  equality is equality of the values.
\<close>

fun dict_set :: "(pykey \<times> 'v) list \<Rightarrow> pykey \<Rightarrow> 'v \<Rightarrow> (pykey \<times> 'v) list" where
  "dict_set [] k v = [(k, v)]"
| "dict_set ((k', v') # kvs) k v =
     (if k' = k then (k', v) # kvs else (k', v') # dict_set kvs k v)"

fun json_loads :: "json \<Rightarrow> pyval" where
  "json_loads JNull = PNone"
| "json_loads (JBool b) = PBool b"
| "json_loads (JInt i) = PInt i"
| "json_loads (JFloat r) = PFloat r"
| "json_loads (JStr s) = PStr s"
| "json_loads (JArr xs) = PList (map json_loads xs)"
| "json_loads (JObj kvs) =
     PDict (foldl (\<lambda>d (k, v). dict_set d (KStr k) v) []
              (map (\<lambda>(k, v). (k, json_loads v)) kvs))"

text \<open>
  \<^verbatim>\<open>json.dumps(data, sort_keys=True, default=str)\<close>, the canonical encoding hashed by the
  checksum. \<^verbatim>\<open>sort_keys\<close> sorts the items of every dict by key; Python raises
  \<^verbatim>\<open>TypeError\<close> when it has to compare keys of different kinds (a str with an int, or
  \<^verbatim>\<open>None\<close> with anything), which happens as soon as a dict with at least two items mixes
  them. Strings compare by code point, ints and bools by value.
\<close>

fun is_str_key :: "pykey \<Rightarrow> bool" where
  "is_str_key (KStr s) = True"
| "is_str_key k = False"

fun is_num_key :: "pykey \<Rightarrow> bool" where
  "is_num_key (KInt i) = True"
| "is_num_key (KBool b) = True"
| "is_num_key k = False"

fun num_of_key :: "pykey \<Rightarrow> int" where
  "num_of_key (KInt i) = i"
| "num_of_key (KBool b) = (if b then 1 else 0)"
| "num_of_key k = 0"

definition sorted_items :: "(pykey \<times> 'v) list \<Rightarrow> error + (pykey \<times> 'v) list" where
  "sorted_items kvs =
     (if length kvs \<le> 1 then Inr kvs
      else if list_all (\<lambda>kv. is_str_key (fst kv)) kvs
        then Inr (sort_key (\<lambda>kv. json_key (fst kv)) kvs)
      else if list_all (\<lambda>kv. is_num_key (fst kv)) kvs
        then Inr (sort_key (\<lambda>kv. num_of_key (fst kv)) kvs)
      else Inl TypeError)"

fun json_dumps_sorted :: "pyval \<Rightarrow> error + json" where
  "json_dumps_sorted PNone = Inr JNull"
| "json_dumps_sorted (PBool b) = Inr (JBool b)"
| "json_dumps_sorted (PInt i) = Inr (JInt i)"
| "json_dumps_sorted (PFloat r) = Inr (JFloat r)"
| "json_dumps_sorted (PStr s) = Inr (JStr s)"
| "json_dumps_sorted (PList xs) =
     (case sequence_sum (map json_dumps_sorted xs) of
        Inl e \<Rightarrow> Inl e
      | Inr js \<Rightarrow> Inr (JArr js))"
| "json_dumps_sorted (PDict kvs) =
     (case sorted_items (map (\<lambda>(k, v). (k, json_dumps_sorted v)) kvs) of
        Inl e \<Rightarrow> Inl e
      | Inr skvs \<Rightarrow>
          (case sequence_sum
                  (map (\<lambda>(k, r). case r of Inl e \<Rightarrow> Inl e | Inr j \<Rightarrow> Inr (json_key k, j)) skvs) of
             Inl e \<Rightarrow> Inl e
           | Inr js \<Rightarrow> Inr (JObj js)))"

section \<open>Sync items (sync.py, SyncStatus, SyncDirection, SyncItem)\<close>

datatype SyncStatus = PENDING | UPLOADING | UPLOADED | FAILED | CONFLICT

datatype SyncDirection = UPLOAD | DOWNLOAD

text \<open>
  The enum values written to the database, and the enum constructors
  \<^verbatim>\<open>SyncStatus(s)\<close>, \<^verbatim>\<open>SyncDirection(s)\<close> that read them back (\<^verbatim>\<open>ValueError\<close> on any
  other string).
\<close>

fun status_value :: "SyncStatus \<Rightarrow> string" where
  "status_value PENDING = ''pending''"
| "status_value UPLOADING = ''uploading''"
| "status_value UPLOADED = ''uploaded''"
| "status_value FAILED = ''failed''"
| "status_value CONFLICT = ''conflict''"

definition SyncStatus_of :: "string \<Rightarrow> error + SyncStatus" where
  "SyncStatus_of s =
     (if s = ''pending'' then Inr PENDING
      else if s = ''uploading'' then Inr UPLOADING
      else if s = ''uploaded'' then Inr UPLOADED
      else if s = ''failed'' then Inr FAILED
      else if s = ''conflict'' then Inr CONFLICT
      else Inl ValueError)"

fun direction_value :: "SyncDirection \<Rightarrow> string" where
  "direction_value UPLOAD = ''upload''"
| "direction_value DOWNLOAD = ''download''"

definition SyncDirection_of :: "string \<Rightarrow> error + SyncDirection" where
  "SyncDirection_of s =
     (if s = ''upload'' then Inr UPLOAD
      else if s = ''download'' then Inr DOWNLOAD
      else Inl ValueError)"

text \<open>
  A \<^verbatim>\<open>datetime\<close> is identified with its ISO-8601 text: \<^verbatim>\<open>isoformat()\<close> returns the text
  and \<^verbatim>\<open>datetime.fromisoformat\<close> rebuilds the value from it (the standard library reads
  back what \<^verbatim>\<open>isoformat\<close> writes). Arithmetic on datetimes is not modelled.
\<close>

datatype datetime = Datetime (isoformat: string)

definition fromisoformat :: "string \<Rightarrow> datetime" where
  "fromisoformat s = Datetime s"

text \<open>The dataclass \<^verbatim>\<open>SyncItem\<close>; the field \<^verbatim>\<open>id\<close> is called \<open>item_id\<close>.\<close>

record SyncItem =
  item_id :: string
  item_type :: string
  data :: pyval
  direction :: SyncDirection
  status :: SyncStatus
  created_at :: datetime
  updated_at :: datetime
  attempts :: int
  last_error :: "string option"
  checksum :: "string option"

text \<open>
  \<^verbatim>\<open>_calculate_checksum\<close>: SHA-256 of the canonical encoding. The hash function is a
  parameter (hashlib is not part of the repository); it receives the canonical document.
  \<^verbatim>\<open>__post_init__\<close> runs at every construction of a \<^verbatim>\<open>SyncItem\<close> and computes the checksum
  only when none was passed.
\<close>

definition calculate_checksum :: "(json \<Rightarrow> string) \<Rightarrow> SyncItem \<Rightarrow> error + string" where
  "calculate_checksum sha256 item =
     (case json_dumps_sorted (data item) of Inl e \<Rightarrow> Inl e | Inr j \<Rightarrow> Inr (sha256 j))"

definition post_init :: "(json \<Rightarrow> string) \<Rightarrow> SyncItem \<Rightarrow> error + SyncItem" where
  "post_init sha256 item =
     (case checksum item of
        None \<Rightarrow>
          (case calculate_checksum sha256 item of
             Inl e \<Rightarrow> Inl e
           | Inr c \<Rightarrow> Inr (item\<lparr>checksum := Some c\<rparr>))
      | Some c \<Rightarrow> Inr item)"

section \<open>The durable queue (sync.py, LocalCache)\<close>

text \<open>
  A row of the table \<^verbatim>\<open>sync_queue\<close>, columns as in \<^verbatim>\<open>SCHEMA\<close>. The table is the list of
  its rows in insertion order; \<^verbatim>\<open>id\<close> is the primary key.
\<close>

record row =
  r_id :: string
  r_item_type :: string
  r_direction :: string
  r_status :: string
  r_data :: json
  r_checksum :: "string option"
  r_created_at :: string
  r_updated_at :: string
  r_attempts :: int
  r_last_error :: "string option"

text \<open>
  \<^verbatim>\<open>enqueue\<close>: \<^verbatim>\<open>INSERT OR REPLACE\<close> deletes the row with the same primary key, if any, and
  inserts the new row.
\<close>

definition enqueue :: "row list \<Rightarrow> SyncItem \<Rightarrow> row list" where
  "enqueue q item =
     filter (\<lambda>r. r_id r \<noteq> item_id item) q @
     [\<lparr> r_id = item_id item,
        r_item_type = item_type item,
        r_direction = direction_value (direction item),
        r_status = status_value (status item),
        r_data = json_dumps (data item),
        r_checksum = checksum item,
        r_created_at = isoformat (created_at item),
        r_updated_at = isoformat (updated_at item),
        r_attempts = attempts item,
        r_last_error = last_error item \<rparr>]"

text \<open>
  \<^verbatim>\<open>dequeue_batch\<close>: \<^verbatim>\<open>SELECT * ... WHERE direction = ? AND status = ? ORDER BY created_at
  ASC LIMIT ?\<close>, then one \<^verbatim>\<open>SyncItem(...)\<close> per row. The column \<^verbatim>\<open>created_at\<close> is TEXT, so
  the order is the order of the ISO texts; a negative \<^verbatim>\<open>LIMIT\<close> means no limit in SQLite.
\<close>

definition sql_limit :: "int \<Rightarrow> 'a list \<Rightarrow> 'a list" where
  "sql_limit n xs = (if n < 0 then xs else take (nat n) xs)"

definition item_of_row :: "(json \<Rightarrow> string) \<Rightarrow> row \<Rightarrow> error + SyncItem" where
  "item_of_row sha256 r =
     (case SyncDirection_of (r_direction r) of
        Inl e \<Rightarrow> Inl e
      | Inr d \<Rightarrow>
          (case SyncStatus_of (r_status r) of
             Inl e \<Rightarrow> Inl e
           | Inr s \<Rightarrow>
               post_init sha256
                 \<lparr> item_id = r_id r,
                   item_type = r_item_type r,
                   data = json_loads (r_data r),
                   direction = d,
                   status = s,
                   created_at = fromisoformat (r_created_at r),
                   updated_at = fromisoformat (r_updated_at r),
                   attempts = r_attempts r,
                   last_error = r_last_error r,
                   checksum = r_checksum r \<rparr>))"

definition dequeue_batch ::
  "(json \<Rightarrow> string) \<Rightarrow> row list \<Rightarrow> SyncDirection \<Rightarrow> SyncStatus \<Rightarrow> int
     \<Rightarrow> error + SyncItem list" where
  "dequeue_batch sha256 q d s limit =
     (let rows = sql_limit limit
                   (sort_key r_created_at
                      (filter (\<lambda>r. r_direction r = direction_value d
                                    \<and> r_status r = status_value s) q))
      in sequence_sum (map (item_of_row sha256) rows))"

text \<open>
  \<^verbatim>\<open>update_item_status\<close>: \<^verbatim>\<open>UPDATE sync_queue SET status = ?, last_error = ?,
  updated_at = ?, attempts = attempts + 1 WHERE id = ?\<close>. The argument \<open>now\<close> is the value
  of \<^verbatim>\<open>datetime.now(timezone.utc)\<close> at the call.
\<close>

definition update_item_status ::
  "row list \<Rightarrow> datetime \<Rightarrow> string \<Rightarrow> SyncStatus \<Rightarrow> string option \<Rightarrow> row list" where
  "update_item_status q now i s err =
     map (\<lambda>r. if r_id r = i
               then r\<lparr> r_status := status_value s, r_last_error := err,
                       r_updated_at := isoformat now, r_attempts := r_attempts r + 1 \<rparr>
               else r) q"

text \<open>\<^verbatim>\<open>remove_item\<close>: \<^verbatim>\<open>DELETE FROM sync_queue WHERE id = ?\<close>.\<close>

definition remove_item :: "row list \<Rightarrow> string \<Rightarrow> row list" where
  "remove_item q i = filter (\<lambda>r. r_id r \<noteq> i) q"

text \<open>
  \<^verbatim>\<open>clear_completed\<close>: \<^verbatim>\<open>DELETE ... WHERE status = 'uploaded' AND updated_at < ?\<close>, returning
  the number of deleted rows. The argument \<open>cutoff\<close> is the value of
  \<^verbatim>\<open>datetime.now(timezone.utc) - timedelta(days=older_than_days)\<close>.
\<close>

definition clear_completed :: "row list \<Rightarrow> datetime \<Rightarrow> row list \<times> nat" where
  "clear_completed q cutoff =
     (let gone = (\<lambda>r. r_status r = status_value UPLOADED \<and> r_updated_at r < isoformat cutoff)
      in (filter (\<lambda>r. \<not> gone r) q, length (filter gone q)))"

section \<open>Batch upload (sync.py, SyncClient._process_upload_batch)\<close>

text \<open>
  One entry of the server's \<^verbatim>\<open>results\<close> list, \<^verbatim>\<open>{id, success, error?}\<close>, and the
  \<^verbatim>\<open>SyncResult\<close> returned (without its wall-clock fields). The key \<^verbatim>\<open>error\<close> of an
  entry is absent, \<^verbatim>\<open>null\<close>, or a text.
\<close>

datatype error_field = Absent | Null | Message string

record item_result =
  res_id :: string
  res_success :: bool
  res_error :: error_field

record SyncResult =
  success :: bool
  items_processed :: nat
  items_failed :: nat
  errors :: "string list"

text \<open>\<^verbatim>\<open>by_type.setdefault(item.item_type, []).append(item)\<close>, groups in first-seen order.\<close>

fun setdefault_append ::
  "(string \<times> 'a list) list \<Rightarrow> string \<Rightarrow> 'a \<Rightarrow> (string \<times> 'a list) list" where
  "setdefault_append [] t x = [(t, [x])]"
| "setdefault_append ((t', xs) # g) t x =
     (if t' = t then (t', xs @ [x]) # g else (t', xs) # setdefault_append g t x)"

definition group_by_type :: "SyncItem list \<Rightarrow> (string \<times> SyncItem list) list" where
  "group_by_type items = foldl (\<lambda>g item. setdefault_append g (item_type item) item) [] items"

text \<open>
  The state threaded through the batch: the queue, the number of clock readings taken so
  far (\<open>clock n\<close> is the \<open>n\<close>-th value of \<^verbatim>\<open>datetime.now\<close>), and the dict
  \<^verbatim>\<open>results = {"processed": 0, "failed": 0, "errors": []}\<close>.
\<close>

record batch_state =
  queue :: "row list"
  reads :: nat
  processed :: nat
  failed :: nat
  errs :: "string list"

text \<open>
  \<^verbatim>\<open>item_result.get("error", "Unknown error")\<close>: the default stands in only for an
  absent key, a \<^verbatim>\<open>null\<close> is returned as \<^verbatim>\<open>None\<close>; and the text of that value in an
  f-string.
\<close>

definition get_error :: "item_result \<Rightarrow> string option" where
  "get_error r =
     (case res_error r of
        Absent \<Rightarrow> Some ''Unknown error''
      | Null \<Rightarrow> None
      | Message e \<Rightarrow> Some e)"

definition format_error :: "string option \<Rightarrow> string" where
  "format_error error = (case error of None \<Rightarrow> ''None'' | Some e \<Rightarrow> e)"

text \<open>The body of \<^verbatim>\<open>for item_result in response_data.get("results", [])\<close>.\<close>

definition apply_result :: "(nat \<Rightarrow> datetime) \<Rightarrow> batch_state \<Rightarrow> item_result \<Rightarrow> batch_state" where
  "apply_result clock st r =
     (if res_success r
      then st\<lparr> queue := update_item_status (queue st) (clock (reads st)) (res_id r) UPLOADED None,
               reads := Suc (reads st),
               processed := processed st + 1 \<rparr>
      else (let error = get_error r
            in st\<lparr> queue := update_item_status (queue st) (clock (reads st)) (res_id r)
                                 FAILED error,
                     reads := Suc (reads st),
                     failed := failed st + 1,
                     errs := errs st @ [res_id r @ '': '' @ format_error error] \<rparr>))"

text \<open>The body of the \<^verbatim>\<open>except SyncError\<close> handler, for one item of the group.\<close>

definition fail_item :: "(nat \<Rightarrow> datetime) \<Rightarrow> error \<Rightarrow> batch_state \<Rightarrow> SyncItem \<Rightarrow> batch_state" where
  "fail_item clock e st item =
     st\<lparr> queue := update_item_status (queue st) (clock (reads st)) (item_id item)
                     FAILED (Some (error_str e)),
         reads := Suc (reads st),
         failed := failed st + 1,
         errs := errs st @ [item_id item @ '': '' @ error_str e] \<rparr>"

definition batch_endpoint :: "string \<Rightarrow> string" where
  "batch_endpoint t = ''/sync/'' @ t @ ''s/batch''"

definition batch_payload :: "SyncItem list \<Rightarrow> (string \<times> pyval \<times> string option) list" where
  "batch_payload type_items = map (\<lambda>item. (item_id item, data item, checksum item)) type_items"

text \<open>
  The outcome of \<^verbatim>\<open>await self._request("POST", endpoint, json=payload)\<close> followed by
  \<^verbatim>\<open>response.json().get("results", [])\<close> is given by the environment: the list of
  per-item results, or the exception raised. Only a \<^verbatim>\<open>SyncError\<close> is caught; any other
  exception leaves the method.
\<close>

type_synonym server =
  "string \<Rightarrow> (string \<times> pyval \<times> string option) list \<Rightarrow> error + item_result list"

fun process_groups ::
  "server \<Rightarrow> (nat \<Rightarrow> datetime) \<Rightarrow> batch_state \<Rightarrow> (string \<times> SyncItem list) list
     \<Rightarrow> error + batch_state" where
  "process_groups send_batch clock st [] = Inr st"
| "process_groups send_batch clock st ((t, type_items) # groups) =
     (case send_batch (batch_endpoint t) (batch_payload type_items) of
        Inr results \<Rightarrow>
          process_groups send_batch clock (foldl (apply_result clock) st results) groups
      | Inl e \<Rightarrow>
          (if is_SyncError e
           then process_groups send_batch clock (foldl (fail_item clock e) st type_items) groups
           else Inl e))"

definition process_upload_batch ::
  "server \<Rightarrow> (nat \<Rightarrow> datetime) \<Rightarrow> row list \<times> nat \<Rightarrow> SyncItem list
     \<Rightarrow> error + (SyncResult \<times> row list \<times> nat)" where
  "process_upload_batch send_batch clock s items =
     (if items = []
      then Inr (\<lparr> success = True, items_processed = 0, items_failed = 0, errors = [] \<rparr>, s)
      else
        (case process_groups send_batch clock
                \<lparr> queue = fst s, reads = snd s, processed = 0, failed = 0, errs = [] \<rparr>
                (group_by_type items) of
           Inl e \<Rightarrow> Inl e
         | Inr st \<Rightarrow>
             Inr (\<lparr> success = (failed st = 0), items_processed = processed st,
                    items_failed = failed st, errors = errs st \<rparr>,
                  queue st, reads st)))"

section \<open>Vocabulary for the properties of the store\<close>

text \<open>
  A payload is JSON-native when \<^verbatim>\<open>json.loads(json.dumps(data))\<close> can give it back: every
  dict key, at any depth, is a string (and, as in every Python dict, the keys of one dict
  are distinct).
\<close>

fun json_native :: "pyval \<Rightarrow> bool" where
  "json_native (PList xs) = list_all json_native xs"
| "json_native (PDict kvs) =
     (list_all (\<lambda>kv. is_str_key (fst kv)) kvs \<and> distinct (map fst kvs)
      \<and> list_all (\<lambda>kv. json_native (snd kv)) kvs)"
| "json_native v = True"

text \<open>
  The results the server returned for a batch, in the order in which they are applied,
  and the status a row ends with: that of the last result naming its id, if any.
\<close>

definition server_results :: "server \<Rightarrow> SyncItem list \<Rightarrow> item_result list" where
  "server_results send_batch items =
     concat (map (\<lambda>g. projr (send_batch (batch_endpoint (fst g)) (batch_payload (snd g))))
               (group_by_type items))"

definition status_after :: "item_result list \<Rightarrow> row \<Rightarrow> string" where
  "status_after rs r =
     (case find (\<lambda>x. res_id x = r_id r) (rev rs) of
        None \<Rightarrow> r_status r
      | Some x \<Rightarrow> status_value (if res_success x then UPLOADED else FAILED))"

text \<open>Concrete inputs used to run the model.\<close>

definition example_digest :: "json \<Rightarrow> string" where
  "example_digest j = ''0f''"

definition example_item :: "string \<Rightarrow> pyval \<Rightarrow> SyncItem" where
  "example_item i d =
     \<lparr> item_id = i, item_type = ''combat_run'', data = d, direction = UPLOAD,
       status = PENDING, created_at = Datetime (''2024-01-01T00:00:0'' @ i),
       updated_at = Datetime (''2024-01-01T00:00:0'' @ i), attempts = 0,
       last_error = None, checksum = Some ''c0'' \<rparr>"

definition int_key_item :: SyncItem where
  "int_key_item = example_item ''1'' (PDict [(KInt 1, PStr ''x'')])"

definition str_key_item :: SyncItem where
  "str_key_item = example_item ''1'' (PDict [(KStr ''dps'', PList [PInt 1, PFloat 2.5])])"

definition five_items :: "SyncItem list" where
  "five_items = map (\<lambda>i. example_item i (PDict [(KStr ''run'', PStr i)]))
                  [''1'', ''2'', ''3'', ''4'', ''5'']"

definition third_fails :: server where
  "third_fails ep p =
     Inr (map (\<lambda>(i, d, c). \<lparr> res_id = i, res_success = (i \<noteq> ''3''),
                             res_error = (if i = ''3'' then Message ''rejected'' else Absent) \<rparr>) p)"

text \<open>
  A stand-in for SHA-256 that reads the whole document: it writes out the keys, in the
  order of the document, and the values (a float only as a mark). An item built without a
  checksum, with the keys of its payload inserted out of order.
\<close>

fun text_digest :: "json \<Rightarrow> string" where
  "text_digest JNull = ''n''"
| "text_digest (JBool b) = (if b then ''t'' else ''f'')"
| "text_digest (JInt i) = str_int i"
| "text_digest (JFloat r) = ''.''"
| "text_digest (JStr s) = CHR ''$'' # s"
| "text_digest (JArr xs) = ''['' @ concat (map (\<lambda>x. text_digest x @ '','') xs) @ '']''"
| "text_digest (JObj kvs) =
     ''{'' @ concat (map (\<lambda>(k, v). k @ '':'' @ text_digest v @ '','') kvs) @ ''}''"

definition unsorted_item :: SyncItem where
  "unsorted_item =
     (example_item ''1'' (PDict [(KStr ''b'', PInt 1), (KStr ''a'', PInt 2)]))\<lparr>checksum := None\<rparr>"

definition example_clock :: "nat \<Rightarrow> datetime" where
  "example_clock n = Datetime ''2024-01-02T00:00:00''"

section \<open>The per-request pipeline (sync.py, SyncClient._request)\<close>

text \<open>
  The environment of one call of \<^verbatim>\<open>_request\<close>. \<open>http k\<close> is the outcome of
  \<^verbatim>\<open>client.request\<close> in iteration \<open>k\<close> of \<^verbatim>\<open>for attempt in range(max_retries)\<close> (every
  iteration issues exactly one request): a response with its status code and its
  \<^verbatim>\<open>Retry-After\<close> header, or an \<^verbatim>\<open>httpx.RequestError\<close>. A header is represented by what
  \<^verbatim>\<open>int(...)\<close> makes of its text: a number, or \<^verbatim>\<open>ValueError\<close>. \<open>jitter_hash k\<close> is the
  value of \<^verbatim>\<open>hash(time.time())\<close> read by \<^verbatim>\<open>_calculate_backoff\<close> in iteration \<open>k\<close>.
  \<open>stored_token\<close> is what \<^verbatim>\<open>token_manager.load_token()\<close> returns when \<^verbatim>\<open>_request\<close> is
  entered (the access token, or \<^verbatim>\<open>None\<close>), \<open>needs_refresh\<close> is the value of
  \<^verbatim>\<open>token.needs_refresh(token_refresh_buffer)\<close> then, and \<open>refresh k\<close> is the outcome of
  the \<open>k\<close>-th call of \<^verbatim>\<open>token_manager._refresh_token\<close> made by this request, counted from
  0: the new access token, or the exception it raises.
\<close>

datatype header_value = HInt int | HBad

datatype http_outcome = Response nat "header_value option" | RequestError string

record request_env =
  http :: "nat \<Rightarrow> http_outcome"
  jitter_hash :: "nat \<Rightarrow> int"
  stored_token :: "string option"
  needs_refresh :: bool
  refresh :: "nat \<Rightarrow> error + string"

text \<open>
  The state of the call: the token in the \<^verbatim>\<open>Authorization\<close> header, a log of the requests
  issued (for each, the seconds slept by the pipeline before it, and the token sent), the
  seconds slept so far, the number of calls of \<^verbatim>\<open>_refresh_token\<close>, and \<^verbatim>\<open>last_exception\<close>.
  The waiting inside \<^verbatim>\<open>rate_limiter.acquire()\<close> is modelled with the rate limiter and
  only adds to the time between two requests.
\<close>

record request_state =
  auth :: string
  send_log :: "(real \<times> string) list"
  slept :: real
  refresh_calls :: nat
  last_exception :: "error option"

text \<open>\<^verbatim>\<open>await asyncio.sleep(wait_time)\<close>: a delay that is not positive returns at once.\<close>

definition sleep :: "real \<Rightarrow> request_state \<Rightarrow> request_state" where
  "sleep wait_time st = st\<lparr>slept := slept st + max 0 wait_time\<rparr>"

text \<open>\<^verbatim>\<open>int(response.headers.get("Retry-After", 60))\<close>.\<close>

definition retry_after_of :: "header_value option \<Rightarrow> error + int" where
  "retry_after_of h =
     (case h of None \<Rightarrow> Inr 60 | Some (HInt i) \<Rightarrow> Inr i | Some HBad \<Rightarrow> Inl ValueError)"

text \<open>
  One iteration of the loop: it returns the response, raises, or falls through to the
  next iteration. \<^verbatim>\<open>response.raise_for_status()\<close> raises \<^verbatim>\<open>HTTPStatusError\<close> for every
  status outside 200..299; the handler retries from 500 on and turns the rest into a
  \<^verbatim>\<open>SyncError\<close> (whose message is kept up to the response text).
  \<^verbatim>\<open>e.retry_after or self._calculate_backoff(attempt)\<close> takes the backoff exactly when
  \<^verbatim>\<open>retry_after\<close> is \<^verbatim>\<open>0\<close>.
\<close>

datatype iteration = Return nat | Raise error | Continue

definition attempt_body ::
  "SyncConfig \<Rightarrow> request_env \<Rightarrow> nat \<Rightarrow> request_state \<Rightarrow> iteration \<times> request_state" where
  "attempt_body cfg env attempt st0 =
     (let st = st0\<lparr>send_log := send_log st0 @ [(slept st0, auth st0)]\<rparr>;
          backoff = calculate_backoff cfg attempt (jitter_hash env attempt)
      in case http env attempt of
           RequestError m \<Rightarrow>
             (Continue, (sleep backoff st)\<lparr>last_exception := Some (NetworkError m)\<rparr>)
         | Response code h \<Rightarrow>
             if code = 429 then
               (case retry_after_of h of
                  Inl e \<Rightarrow> (Raise e, st)
                | Inr retry_after \<Rightarrow>
                    (let wait_time = (if retry_after \<noteq> 0 then real_of_int retry_after
                                      else backoff)
                     in (Continue,
                         (sleep wait_time st)
                           \<lparr>last_exception :=
                              Some (RateLimitError
                                      (''Rate limit exceeded. Retry after ''
                                         @ str_int retry_after @ ''s'')
                                      retry_after)\<rparr>)))
             else if code = 401 then
               (if attempt = 0 then
                  (case refresh env (refresh_calls st) of
                     Inl e \<Rightarrow> (Raise e, st\<lparr>refresh_calls := Suc (refresh_calls st)\<rparr>)
                   | Inr tok \<Rightarrow>
                       (Continue, st\<lparr>refresh_calls := Suc (refresh_calls st), auth := tok\<rparr>))
                else (Raise (AuthenticationError ''Authentication failed''), st))
             else if 200 \<le> code \<and> code < 300 then (Return code, st)
             else if 500 \<le> code then
               (Continue, (sleep backoff st)\<lparr>last_exception := Some (HTTPStatusError code)\<rparr>)
             else (Raise (SyncError (''API error: '' @ str_nat code)), st))"

text \<open>
  The loop \<^verbatim>\<open>for attempt in range(self.config.max_retries)\<close>, with the number of
  iterations left as the recursion argument, and after it
  \<^verbatim>\<open>raise last_exception or SyncError("Max retries exceeded")\<close>.
\<close>

fun request_loop ::
  "SyncConfig \<Rightarrow> request_env \<Rightarrow> nat \<Rightarrow> nat \<Rightarrow> request_state
     \<Rightarrow> (error + nat) \<times> request_state" where
  "request_loop cfg env attempt 0 st =
     (Inl (case last_exception st of
             Some e \<Rightarrow> e
           | None \<Rightarrow> SyncError ''Max retries exceeded''), st)"
| "request_loop cfg env attempt (Suc n) st =
     (case attempt_body cfg env attempt st of
        (Return code, st') \<Rightarrow> (Inr code, st')
      | (Raise e, st') \<Rightarrow> (Inl e, st')
      | (Continue, st') \<Rightarrow> request_loop cfg env (Suc attempt) n st')"

text \<open>
  \<^verbatim>\<open>TokenManager.get_valid_token\<close>, the first step of \<^verbatim>\<open>_request\<close>: without a stored token
  it raises \<^verbatim>\<open>AuthenticationError\<close>; a token within the refresh buffer is refreshed
  (the check repeated under the lock gives the same answer when no other task refreshed
  meanwhile), and an exception of \<^verbatim>\<open>_refresh_token\<close> leaves the method. The result is
  paired with the number of calls of \<^verbatim>\<open>_refresh_token\<close> made.
\<close>

definition get_valid_token :: "request_env \<Rightarrow> (error + string) \<times> nat" where
  "get_valid_token env =
     (case stored_token env of
        None \<Rightarrow> (Inl (AuthenticationError ''No authentication token available. Please login.''), 0)
      | Some tok \<Rightarrow>
          (if needs_refresh env
           then (case refresh env 0 of Inl e \<Rightarrow> (Inl e, 1) | Inr tok' \<Rightarrow> (Inr tok', 1))
           else (Inr tok, 0)))"

text \<open>
  \<^verbatim>\<open>_request\<close>: \<^verbatim>\<open>get_valid_token()\<close>, the \<^verbatim>\<open>Authorization\<close> header of the token it
  left in the token manager, then the loop.
\<close>

definition request :: "SyncConfig \<Rightarrow> request_env \<Rightarrow> (error + nat) \<times> request_state" where
  "request cfg env =
     (case get_valid_token env of
        (Inl e, k) \<Rightarrow>
          (Inl e, \<lparr> auth = [], send_log = [], slept = 0, refresh_calls = k,
                     last_exception = None \<rparr>)
      | (Inr tok, k) \<Rightarrow>
          request_loop cfg env 0 (nat (max_retries cfg))
            \<lparr> auth = tok, send_log = [], slept = 0, refresh_calls = k,
              last_exception = None \<rparr>)"

text \<open>
  Whether \<^verbatim>\<open>get_valid_token\<close> refreshes before the loop, and whether the loop is entered.
\<close>

definition early_refresh :: "request_env \<Rightarrow> bool" where
  "early_refresh env = (stored_token env \<noteq> None \<and> needs_refresh env)"

definition loop_entered :: "request_env \<Rightarrow> bool" where
  "loop_entered env = (case fst (get_valid_token env) of Inl e \<Rightarrow> False | Inr tok \<Rightarrow> True)"

text \<open>The seconds the pipeline sleeps after a 429 in iteration \<open>k\<close>.\<close>

definition pause_after_429 :: "SyncConfig \<Rightarrow> request_env \<Rightarrow> nat \<Rightarrow> header_value option \<Rightarrow> real" where
  "pause_after_429 cfg env k h =
     (case h of
        None \<Rightarrow> 60
      | Some (HInt i) \<Rightarrow>
          (if i \<noteq> 0 then max 0 (real_of_int i)
           else max 0 (calculate_backoff cfg k (jitter_hash env k)))
      | Some HBad \<Rightarrow> 0)"

text \<open>Concrete environments used to run the pipeline.\<close>

definition answers :: "http_outcome list \<Rightarrow> request_env" where
  "answers rs =
     \<lparr> http = (\<lambda>k. if k < length rs then rs ! k else Response 200 None),
       jitter_hash = (\<lambda>k. 0),
       stored_token = Some ''token1'',
       needs_refresh = False,
       refresh = (\<lambda>k. Inr (''token'' @ str_nat (k + 2))) \<rparr>"

definition near_expiry :: "request_env \<Rightarrow> request_env" where
  "near_expiry env = env\<lparr>needs_refresh := True\<rparr>"

definition one_try :: SyncConfig where
  "one_try = default_config\<lparr>max_retries := 1\<rparr>"

section \<open>The rate limiter (sync.py, RateLimiter)\<close>

text \<open>
  The limiter holds its two limits and the two deques of grant timestamps, oldest first.
  Timestamps are the floats of \<^verbatim>\<open>time.time()\<close>, modelled as reals.
\<close>

record RateLimiter =
  rpm_limit :: int
  rph_limit :: int
  minute_window :: "real list"
  hour_window :: "real list"

definition RateLimiter_init :: "int \<Rightarrow> int \<Rightarrow> RateLimiter" where
  "RateLimiter_init per_minute per_hour =
     \<lparr> rpm_limit = per_minute, rph_limit = per_hour,
       minute_window = [], hour_window = [] \<rparr>"

text \<open>
  The clock is part of the environment: a current time and the list of the amounts by
  which time will have advanced at each of the coming calls of \<^verbatim>\<open>time.time()\<close> (since
  the previous reading, or since the end of the sleep before it). A call of
  \<^verbatim>\<open>time.time()\<close> takes the next amount; \<^verbatim>\<open>await asyncio.sleep(w)\<close> advances the time by
  \<open>w\<close>. When the list is used up the call has not returned within the modelled time,
  which is the result \<open>None\<close>. \<^verbatim>\<open>async with self._lock\<close> makes the calls of \<^verbatim>\<open>acquire\<close>
  run one after the other, so a call is a function from state to state.
\<close>

text \<open>\<^verbatim>\<open>while window and window[0] < bound: window.popleft()\<close>.\<close>

fun prune :: "real \<Rightarrow> real list \<Rightarrow> real list" where
  "prune bound [] = []"
| "prune bound (t # w) = (if t < bound then prune bound w else t # w)"

text \<open>
  The two waiting loops of \<^verbatim>\<open>acquire\<close> are the same code for the minute window (span
  60) and the hour window (span 3600):
  \<^verbatim>\<open>while len(window) >= limit: wait_time = window[0] - ago; if wait_time > 0: await
  asyncio.sleep(wait_time); now = time.time(); ago = now - width; (prune window)\<close>.
  The argument \<open>ago\<close> is \<^verbatim>\<open>minute_ago\<close> or \<^verbatim>\<open>hour_ago\<close> as computed before the loop.
  \<^verbatim>\<open>window[0]\<close> raises \<^verbatim>\<open>IndexError\<close> on an empty deque, which the loop reaches when the
  limit is not positive. The loop returns the window, the time and the rest of the clock.
\<close>

fun wait_loop ::
  "int \<Rightarrow> real \<Rightarrow> real list \<Rightarrow> real \<Rightarrow> real \<Rightarrow> real list
     \<Rightarrow> (error + real list \<times> real \<times> real list) option" where
  "wait_loop limit width w ago clock [] =
     (if limit \<le> int (length w)
      then (case w of [] \<Rightarrow> Some (Inl IndexError) | t0 # rest \<Rightarrow> None)
      else Some (Inr (w, clock, [])))"
| "wait_loop limit width w ago clock (d # ticks) =
     (if limit \<le> int (length w)
      then (case w of
              [] \<Rightarrow> Some (Inl IndexError)
            | t0 # rest \<Rightarrow>
                (let wait_time = t0 - ago;
                     woke = (if 0 < wait_time then clock + wait_time else clock);
                     now = woke + d;
                     ago' = now - width
                 in wait_loop limit width (prune ago' w) ago' now ticks))
      else Some (Inr (w, clock, d # ticks)))"

text \<open>
  \<^verbatim>\<open>acquire\<close>: read the time, prune both windows, run the minute loop, then the hour loop
  (with the \<^verbatim>\<open>hour_ago\<close> of the first reading), read the time again and append it to both
  windows. The result is the granted timestamp, the limiter, and the clock.
\<close>

definition acquire ::
  "RateLimiter \<Rightarrow> real \<Rightarrow> real list
     \<Rightarrow> (error + real \<times> RateLimiter \<times> real \<times> real list) option" where
  "acquire rl clock ticks =
     (case ticks of
        [] \<Rightarrow> None
      | d # ticks1 \<Rightarrow>
          (let now = clock + d;
               minute_ago = now - 60;
               hour_ago = now - 3600;
               mw = prune minute_ago (minute_window rl);
               hw = prune hour_ago (hour_window rl)
           in case wait_loop (rpm_limit rl) 60 mw minute_ago now ticks1 of
                None \<Rightarrow> None
              | Some (Inl e) \<Rightarrow> Some (Inl e)
              | Some (Inr (mw', clock2, ticks2)) \<Rightarrow>
                  (case wait_loop (rph_limit rl) 3600 hw hour_ago clock2 ticks2 of
                     None \<Rightarrow> None
                   | Some (Inl e) \<Rightarrow> Some (Inl e)
                   | Some (Inr (hw', clock3, ticks3)) \<Rightarrow>
                       (case ticks3 of
                          [] \<Rightarrow> None
                        | d' # ticks4 \<Rightarrow>
                            (let now' = clock3 + d'
                             in Some (Inr (now',
                                           rl\<lparr> minute_window := mw' @ [now'],
                                               hour_window := hw' @ [now'] \<rparr>,
                                           now', ticks4)))))))"

text \<open>
  A sequence of \<open>n\<close> completed calls of \<^verbatim>\<open>acquire\<close>, with the granted timestamps in the
  order of the grants. The time that passes between two calls is part of the first clock
  reading of the later call.
\<close>

fun acquire_many ::
  "nat \<Rightarrow> RateLimiter \<Rightarrow> real \<Rightarrow> real list
     \<Rightarrow> (error + real list \<times> RateLimiter \<times> real \<times> real list) option" where
  "acquire_many 0 rl clock ticks = Some (Inr ([], rl, clock, ticks))"
| "acquire_many (Suc n) rl clock ticks =
     (case acquire rl clock ticks of
        None \<Rightarrow> None
      | Some (Inl e) \<Rightarrow> Some (Inl e)
      | Some (Inr (g, rl', clock', ticks')) \<Rightarrow>
          (case acquire_many n rl' clock' ticks' of
             None \<Rightarrow> None
           | Some (Inl e) \<Rightarrow> Some (Inl e)
           | Some (Inr (gs, rl'', clock'', ticks'')) \<Rightarrow>
               Some (Inr (g # gs, rl'', clock'', ticks''))))"

text \<open>
  The number of timestamps of a list that fall within the trailing window of the given
  width that ends at \<open>T\<close>.
\<close>

definition in_window :: "real \<Rightarrow> real \<Rightarrow> real list \<Rightarrow> nat" where
  "in_window width T ts = length (filter (\<lambda>t. T - width \<le> t \<and> t \<le> T) ts)"

section \<open>The table-literal parser (watcher.py, LuaTableParser): values and characters\<close>

text \<open>
  The Python values the parser builds: \<^verbatim>\<open>None\<close>, bools, ints, floats (as reals: the
  exact value of the literal, binary rounding is not modelled), strings, lists, and dicts
  as association lists in insertion order. Any parsed value can be written as a table key.
\<close>

datatype lua_value = LNone | LBool bool | LInt int | LFloat real | LStr string
  | LList "lua_value list" | LDict "(lua_value \<times> lua_value) list"

text \<open>
  The text is a list of characters with code points below 256. \<^verbatim>\<open>str.isspace\<close>,
  \<^verbatim>\<open>str.isalpha\<close> and the regular-expression class \<^verbatim>\<open>\s\<close> are Python's on that range;
  \<^verbatim>\<open>\d\<close> is \<^verbatim>\<open>[0-9]\<close> there.
\<close>

definition isspace :: "char \<Rightarrow> bool" where
  "isspace c =
     (let n = (of_char c :: nat)
      in (9 \<le> n \<and> n \<le> 13) \<or> (28 \<le> n \<and> n \<le> 32) \<or> n = 133 \<or> n = 160)"

definition isalpha :: "char \<Rightarrow> bool" where
  "isalpha c =
     (let n = (of_char c :: nat)
      in (65 \<le> n \<and> n \<le> 90) \<or> (97 \<le> n \<and> n \<le> 122) \<or> n = 170 \<or> n = 181 \<or> n = 186
         \<or> (192 \<le> n \<and> n \<le> 214) \<or> (216 \<le> n \<and> n \<le> 246) \<or> (248 \<le> n \<and> n \<le> 255))"

definition is_digit :: "char \<Rightarrow> bool" where
  "is_digit c = (let n = (of_char c :: nat) in 48 \<le> n \<and> n \<le> 57)"

definition is_hex_digit :: "char \<Rightarrow> bool" where
  "is_hex_digit c =
     (let n = (of_char c :: nat)
      in (48 \<le> n \<and> n \<le> 57) \<or> (65 \<le> n \<and> n \<le> 70) \<or> (97 \<le> n \<and> n \<le> 102))"

text \<open>The classes \<^verbatim>\<open>[a-zA-Z_]\<close> and \<^verbatim>\<open>[a-zA-Z0-9_]\<close>.\<close>

definition is_ident_start :: "char \<Rightarrow> bool" where
  "is_ident_start c =
     (let n = (of_char c :: nat)
      in (65 \<le> n \<and> n \<le> 90) \<or> (97 \<le> n \<and> n \<le> 122) \<or> n = 95)"

definition is_ident_char :: "char \<Rightarrow> bool" where
  "is_ident_char c = (is_ident_start c \<or> is_digit c)"

text \<open>
  \<^verbatim>\<open>content.find(sub, start)\<close>: the lowest index at or after \<open>start\<close> where \<open>sub\<close>
  occurs, \<open>None\<close> for \<^verbatim>\<open>-1\<close>.
\<close>

fun find_in :: "string \<Rightarrow> string \<Rightarrow> nat \<Rightarrow> nat option" where
  "find_in sub [] i = (if sub = [] then Some i else None)"
| "find_in sub (c # s) i =
     (if take (length sub) (c # s) = sub then Some i else find_in sub s (Suc i))"

definition str_find :: "string \<Rightarrow> string \<Rightarrow> nat \<Rightarrow> nat option" where
  "str_find content sub start =
     (if start \<le> length content then find_in sub (drop start content) start else None)"

lemma find_in_bounds:
  "find_in sub s i = Some j \<Longrightarrow> i \<le> j \<and> j + length sub \<le> i + length s"
proof (induction s arbitrary: i)
  case Nil
  then show ?case by (simp split: if_splits)
next
  case (Cons c s)
  show ?case
  proof (cases "take (length sub) (c # s) = sub")
    case True
    then have "length (take (length sub) (c # s)) = length sub" by simp
    then have "length sub \<le> length (c # s)"
      by (simp only: length_take)
    then show ?thesis using Cons.prems True by simp
  next
    case False
    then have "find_in sub s (Suc i) = Some j" using Cons.prems by simp
    then show ?thesis using Cons.IH by fastforce
  qed
qed

lemma str_find_bounds:
  "str_find content sub start = Some j \<Longrightarrow> start \<le> j \<and> j + length sub \<le> length content"
  using find_in_bounds [of sub "drop start content" start j]
  by (auto simp: str_find_def split: if_splits)

text \<open>
  \<^verbatim>\<open>_skip_whitespace\<close>: skips white space, block comments \<^verbatim>\<open>--[[ ... ]]\<close> and line
  comments \<^verbatim>\<open>-- ...\<close>; an unterminated comment runs to the end of the text.
\<close>

function skip_whitespace :: "string \<Rightarrow> nat \<Rightarrow> nat" where
  "skip_whitespace content pos =
     (if pos < length content then
        (if isspace (content ! pos) then skip_whitespace content (pos + 1)
         else if take 2 (drop pos content) = ''--'' then
           (if take 4 (drop pos content) = ''--[['' then
              (case str_find content '']]'' (pos + 4) of
                 None \<Rightarrow> length content
               | Some e \<Rightarrow> skip_whitespace content (e + 2))
            else
              (case str_find content [CHR 0x0A] pos of
                 None \<Rightarrow> length content
               | Some e \<Rightarrow> skip_whitespace content (e + 1)))
         else pos)
      else pos)"
  by pat_completeness auto
termination
proof (relation "measure (\<lambda>(content, pos). length content - pos)")
  show "wf (measure (\<lambda>(content, pos). length content - pos))" by simp
next
  fix content :: string and pos :: nat
  assume "pos < length content"
  then show "((content, pos + 1), (content, pos)) \<in> measure (\<lambda>(content, pos). length content - pos)"
    by simp
next
  fix content :: string and pos e :: nat
  assume "pos < length content" and "str_find content '']]'' (pos + 4) = Some e"
  then show "((content, e + 2), (content, pos)) \<in> measure (\<lambda>(content, pos). length content - pos)"
    using str_find_bounds [of content "'']]''" "pos + 4" e] by (simp, arith)
next
  fix content :: string and pos e :: nat
  assume "pos < length content" and "str_find content [CHR 0x0A] pos = Some e"
  then show "((content, e + 1), (content, pos)) \<in> measure (\<lambda>(content, pos). length content - pos)"
    using str_find_bounds [of content "[CHR 0x0A]" pos e] by (simp, arith)
qed

declare skip_whitespace.simps [simp del]

text \<open>\<^verbatim>\<open>_is_identifier_start\<close>: \<^verbatim>\<open>char.isalpha() or char == "_"\<close>.\<close>

definition is_identifier_start :: "string \<Rightarrow> nat \<Rightarrow> bool" where
  "is_identifier_start content pos =
     (if length content \<le> pos then False
      else isalpha (content ! pos) \<or> content ! pos = CHR ''_'')"

text \<open>
  \<^verbatim>\<open>_parse_string\<close>: the characters up to the closing quote, with the escapes
  \<^verbatim>\<open>\n \t \r \\\<close> and the escaped quote; any other escaped character stands for itself.
  The loop carries the list \<^verbatim>\<open>result\<close>.
\<close>

definition unescape :: "char \<Rightarrow> char \<Rightarrow> char" where
  "unescape quote next_char =
     (if next_char = CHR ''n'' then CHR 0x0A
      else if next_char = CHR ''t'' then CHR 0x09
      else if next_char = CHR ''r'' then CHR 0x0D
      else if next_char = CHR 0x5C then CHR 0x5C
      else if next_char = quote then quote
      else next_char)"

function parse_string_loop :: "string \<Rightarrow> nat \<Rightarrow> char \<Rightarrow> string \<Rightarrow> error + string \<times> nat" where
  "parse_string_loop content pos quote result =
     (if pos < length content then
        (if content ! pos = quote then Inr (result, pos + 1)
         else if content ! pos = CHR 0x5C then
           (if length content \<le> pos + 1 then Inl LuaParseError
            else parse_string_loop content (pos + 2) quote
                   (result @ [unescape quote (content ! (pos + 1))]))
         else parse_string_loop content (pos + 1) quote (result @ [content ! pos]))
      else Inl LuaParseError)"
  by pat_completeness auto
termination
  by (relation "measure (\<lambda>(content, pos, quote, result). length content - pos)") auto

declare parse_string_loop.simps [simp del]

definition parse_string :: "string \<Rightarrow> nat \<Rightarrow> char \<Rightarrow> error + string \<times> nat" where
  "parse_string content pos quote =
     (if length content \<le> pos then Inl IndexError
      else if content ! pos \<noteq> quote then Inl LuaParseError
      else parse_string_loop content (pos + 1) quote [])"

text \<open>\<^verbatim>\<open>_parse_long_string\<close>: the text between \<^verbatim>\<open>[[\<close> and the next \<^verbatim>\<open>]]\<close>.\<close>

definition parse_long_string :: "string \<Rightarrow> nat \<Rightarrow> error + string \<times> nat" where
  "parse_long_string content pos =
     (if take 2 (drop pos content) \<noteq> ''[['' then Inl LuaParseError
      else (case str_find content '']]'' (pos + 2) of
              None \<Rightarrow> Inl LuaParseError
            | Some e \<Rightarrow> Inr (take (e - (pos + 2)) (drop (pos + 2) content), e + 2)))"

section \<open>The table-literal parser: tokens and numbers\<close>

text \<open>
  The number pattern \<^verbatim>\<open>-?(?:0x[0-9a-fA-F]+|\d+\.?\d*(?:[eE][+-]?\d+)?)\<close>, matched at the
  start of a text; the result is the matched text. The quantifiers are greedy, and
  nothing has to follow the pattern, so the first greedy match is the match; the
  alternative \<^verbatim>\<open>0x...\<close> is tried before the decimal one.
\<close>

definition match_hex :: "string \<Rightarrow> string option" where
  "match_hex s =
     (if take 2 s = ''0x'' \<and> takeWhile is_hex_digit (drop 2 s) \<noteq> []
      then Some (''0x'' @ takeWhile is_hex_digit (drop 2 s))
      else None)"

definition match_exponent :: "string \<Rightarrow> string" where
  "match_exponent s =
     (case s of
        [] \<Rightarrow> []
      | c # r \<Rightarrow>
          (if c = CHR ''e'' \<or> c = CHR ''E'' then
             (let sign = (if take 1 r = ''+'' \<or> take 1 r = ''-'' then take 1 r else []);
                  digits = takeWhile is_digit (drop (length sign) r)
              in if digits = [] then [] else c # sign @ digits)
           else []))"

definition match_decimal :: "string \<Rightarrow> string option" where
  "match_decimal s =
     (let int_part = takeWhile is_digit s
      in if int_part = [] then None
         else (let r1 = drop (length int_part) s;
                   dot = (if take 1 r1 = ''.'' then ''.'' else []);
                   r2 = drop (length dot) r1;
                   frac = takeWhile is_digit r2;
                   r3 = drop (length frac) r2
               in Some (int_part @ dot @ frac @ match_exponent r3)))"

definition match_number :: "string \<Rightarrow> string option" where
  "match_number s =
     (let sign = (if take 1 s = ''-'' then ''-'' else []);
          body = drop (length sign) s
      in case match_hex body of
           Some t \<Rightarrow> Some (sign @ t)
         | None \<Rightarrow>
             (case match_decimal body of
                Some t \<Rightarrow> Some (sign @ t)
              | None \<Rightarrow> None))"

text \<open>
  The token pattern of \<^verbatim>\<open>_parse_value\<close>: the number pattern, or \<^verbatim>\<open>true\<close>, \<^verbatim>\<open>false\<close>,
  \<^verbatim>\<open>nil\<close>, or an identifier \<^verbatim>\<open>[a-zA-Z_][a-zA-Z0-9_]*\<close>, in this order of preference.
\<close>

definition match_token :: "string \<Rightarrow> string option" where
  "match_token s =
     (case match_number s of
        Some t \<Rightarrow> Some t
      | None \<Rightarrow>
          (if take 4 s = ''true'' then Some ''true''
           else if take 5 s = ''false'' then Some ''false''
           else if take 3 s = ''nil'' then Some ''nil''
           else (case s of
                   [] \<Rightarrow> None
                 | c # r \<Rightarrow> if is_ident_start c then Some (takeWhile is_ident_char s) else None)))"

text \<open>
  The pattern \<^verbatim>\<open>([a-zA-Z_][a-zA-Z0-9_]*)\s*=\<close> of \<^verbatim>\<open>_parse_table\<close>, matched at the start
  of a text: the identifier and the length of the match.
\<close>

definition match_ident_eq :: "string \<Rightarrow> (string \<times> nat) option" where
  "match_ident_eq s =
     (case s of
        [] \<Rightarrow> None
      | c # r \<Rightarrow>
          (if is_ident_start c then
             (let name = takeWhile is_ident_char s;
                  r1 = drop (length name) s;
                  ws = takeWhile isspace r1;
                  r2 = drop (length ws) r1
              in if take 1 r2 = ''='' then Some (name, length name + length ws + 1) else None)
           else None))"

text \<open>
  The conversions of a number token. \<^verbatim>\<open>float(token)\<close> accepts the decimal form (sign,
  digits, optional point and digits, optional exponent) and raises \<^verbatim>\<open>ValueError\<close> on the
  other texts a token can be, in particular on every text with \<^verbatim>\<open>0x\<close>. Its value is the
  exact decimal value. \<^verbatim>\<open>int(token, 16)\<close> reads an optional sign, \<^verbatim>\<open>0x\<close> and hexadecimal
  digits; \<^verbatim>\<open>int(token)\<close> reads an optional sign and decimal digits.
\<close>

definition digit_value :: "char \<Rightarrow> nat" where
  "digit_value c =
     (let n = (of_char c :: nat)
      in if 48 \<le> n \<and> n \<le> 57 then n - 48
         else if 65 \<le> n \<and> n \<le> 70 then n - 55
         else n - 87)"

definition digits_value :: "nat \<Rightarrow> string \<Rightarrow> nat" where
  "digits_value base ds = foldl (\<lambda>a c. base * a + digit_value c) 0 ds"

definition strip_sign :: "string \<Rightarrow> bool \<times> string" where
  "strip_sign s =
     (if take 1 s = ''-'' then (True, drop 1 s)
      else if take 1 s = ''+'' then (False, drop 1 s)
      else (False, s))"

definition py_int :: "string \<Rightarrow> error + int" where
  "py_int token =
     (let (neg, ds) = strip_sign token
      in if ds \<noteq> [] \<and> list_all is_digit ds
         then Inr ((if neg then - 1 else 1) * int (digits_value 10 ds))
         else Inl ValueError)"

definition py_int16 :: "string \<Rightarrow> error + int" where
  "py_int16 token =
     (let (neg, body) = strip_sign token;
          ds = drop 2 body
      in if take 2 body = ''0x'' \<and> ds \<noteq> [] \<and> list_all is_hex_digit ds
         then Inr ((if neg then - 1 else 1) * int (digits_value 16 ds))
         else Inl ValueError)"

definition py_float :: "string \<Rightarrow> error + real" where
  "py_float token =
     (let (neg, body) = strip_sign token;
          int_part = takeWhile is_digit body;
          r1 = drop (length int_part) body;
          dot = (if take 1 r1 = ''.'' then ''.'' else []);
          r2 = drop (length dot) r1;
          frac = takeWhile is_digit r2;
          r3 = drop (length frac) r2;
          ex = match_exponent r3
      in if int_part = [] \<or> r3 \<noteq> ex then Inl ValueError
         else (let (eneg, eds) = strip_sign (drop 1 ex);
                   e = (if eneg then - 1 else 1) * int (digits_value 10 eds) - int (length frac);
                   m = real (digits_value 10 (int_part @ frac));
                   v = (if 0 \<le> e then m * 10 ^ nat e else m / 10 ^ nat (- e))
               in Inr (if neg then - v else v)))"

text \<open>
  The number branch of \<^verbatim>\<open>_parse_value\<close>:
  \<^verbatim>\<open>if "." in token or "e" in token.lower(): float(token)\<close>,
  \<^verbatim>\<open>elif token.startswith("0x") or token.startswith("-0x"): int(token, 16)\<close>,
  \<^verbatim>\<open>else: int(token)\<close>.
\<close>

definition convert_number :: "string \<Rightarrow> error + lua_value" where
  "convert_number token =
     (if CHR ''.'' \<in> set token \<or> CHR ''e'' \<in> set token \<or> CHR ''E'' \<in> set token then
        (case py_float token of Inl e \<Rightarrow> Inl e | Inr v \<Rightarrow> Inr (LFloat v))
      else if take 2 token = ''0x'' \<or> take 3 token = ''-0x'' then
        (case py_int16 token of Inl e \<Rightarrow> Inl e | Inr v \<Rightarrow> Inr (LInt v))
      else
        (case py_int token of Inl e \<Rightarrow> Inl e | Inr v \<Rightarrow> Inr (LInt v)))"

text \<open>
  What \<^verbatim>\<open>_parse_value\<close> makes of a token: \<^verbatim>\<open>true\<close>, \<^verbatim>\<open>false\<close>, \<^verbatim>\<open>nil\<close>, a number when
  the number pattern matches the token, and otherwise the identifier as a string.
\<close>

definition convert_token :: "string \<Rightarrow> error + lua_value" where
  "convert_token token =
     (if token = ''true'' then Inr (LBool True)
      else if token = ''false'' then Inr (LBool False)
      else if token = ''nil'' then Inr LNone
      else if match_number token \<noteq> None then convert_number token
      else Inr (LStr token))"

section \<open>The table-literal parser: tables\<close>

text \<open>
  Python's equality between a key and the int \<^verbatim>\<open>array_index\<close> (\<^verbatim>\<open>key != array_index\<close>):
  numbers compare by value, \<^verbatim>\<open>True\<close> is 1 and \<^verbatim>\<open>False\<close> is 0, nothing else equals an int.
\<close>

fun num_of :: "lua_value \<Rightarrow> real option" where
  "num_of (LInt i) = Some (real_of_int i)"
| "num_of (LBool b) = Some (if b then 1 else 0)"
| "num_of (LFloat r) = Some r"
| "num_of v = None"

definition py_eq_int :: "lua_value \<Rightarrow> int \<Rightarrow> bool" where
  "py_eq_int key n = (num_of key = Some (real_of_int n))"

text \<open>
  \<^verbatim>\<open>result[key] = value\<close> on the dict \<^verbatim>\<open>result\<close>: lists and dicts are unhashable
  (\<^verbatim>\<open>TypeError\<close>); keys are found by Python's equality, so \<^verbatim>\<open>1\<close>, \<^verbatim>\<open>1.0\<close> and \<^verbatim>\<open>True\<close>
  are one key; an existing key keeps its place and its first spelling.
\<close>

fun is_hashable :: "lua_value \<Rightarrow> bool" where
  "is_hashable (LList xs) = False"
| "is_hashable (LDict kvs) = False"
| "is_hashable v = True"

definition key_eq :: "lua_value \<Rightarrow> lua_value \<Rightarrow> bool" where
  "key_eq a b =
     (case num_of a of
        Some x \<Rightarrow> num_of b = Some x
      | None \<Rightarrow> num_of b = None \<and> a = b)"

fun dict_update ::
  "(lua_value \<times> lua_value) list \<Rightarrow> lua_value \<Rightarrow> lua_value \<Rightarrow> (lua_value \<times> lua_value) list" where
  "dict_update [] k v = [(k, v)]"
| "dict_update ((k', v') # kvs) k v =
     (if key_eq k' k then (k', v) # kvs else (k', v') # dict_update kvs k v)"

definition dict_store ::
  "(lua_value \<times> lua_value) list \<Rightarrow> lua_value \<Rightarrow> lua_value
     \<Rightarrow> error + (lua_value \<times> lua_value) list" where
  "dict_store result key v =
     (if is_hashable key then Inr (dict_update result key v) else Inl TypeError)"

text \<open>\<^verbatim>\<open>result[i]\<close>: \<^verbatim>\<open>KeyError\<close> when no key equals \<open>i\<close>.\<close>

fun dict_get :: "(lua_value \<times> lua_value) list \<Rightarrow> lua_value \<Rightarrow> error + lua_value" where
  "dict_get [] k = Inl KeyError"
| "dict_get ((k', v') # kvs) k = (if key_eq k' k then Inr v' else dict_get kvs k)"

text \<open>
  The end of \<^verbatim>\<open>_parse_table\<close>:
  \<^verbatim>\<open>if is_array and result and all(isinstance(k, int) for k in result.keys()):\<close>
  \<^verbatim>\<open>max_key = max(result.keys()); if max_key == len(result): return [result[i] for i in
  range(1, max_key + 1)]\<close>, and otherwise the dict. A bool is an \<^verbatim>\<open>int\<close> for
  \<^verbatim>\<open>isinstance\<close>.
\<close>

fun is_int_key :: "lua_value \<Rightarrow> bool" where
  "is_int_key (LInt i) = True"
| "is_int_key (LBool b) = True"
| "is_int_key v = False"

fun int_of_key :: "lua_value \<Rightarrow> int" where
  "int_of_key (LInt i) = i"
| "int_of_key (LBool b) = (if b then 1 else 0)"
| "int_of_key v = 0"

definition table_result :: "bool \<Rightarrow> (lua_value \<times> lua_value) list \<Rightarrow> error + lua_value" where
  "table_result is_array result =
     (if is_array \<and> result \<noteq> [] \<and> list_all (\<lambda>kv. is_int_key (fst kv)) result then
        (let max_key = foldl max (int_of_key (fst (hd result))) (map (\<lambda>kv. int_of_key (fst kv)) result)
         in if max_key = int (length result)
            then (case sequence_sum (map (\<lambda>i. dict_get result (LInt i)) [1..max_key]) of
                    Inl e \<Rightarrow> Inl e
                  | Inr vs \<Rightarrow> Inr (LList vs))
            else Inr (LDict result))
      else Inr (LDict result))"

text \<open>
  One entry of a table as it is written: a bracketed key with its value, an identifier
  key with its value, or a bare value. The body of the loop of \<^verbatim>\<open>_parse_table\<close> first
  reads an entry (\<open>parse_entry\<close> below) and then records it: it fixes the key, updates
  \<^verbatim>\<open>array_index\<close> and \<^verbatim>\<open>is_array\<close>, and stores the value under the key.
\<close>

datatype entry = Bracketed lua_value lua_value | Named string lua_value | Bare lua_value

fun entry_value :: "entry \<Rightarrow> lua_value" where
  "entry_value (Bracketed k v) = v"
| "entry_value (Named k v) = v"
| "entry_value (Bare v) = v"

type_synonym table_state = "(lua_value \<times> lua_value) list \<times> int \<times> bool"

fun record_entry :: "table_state \<Rightarrow> entry \<Rightarrow> error + table_state" where
  "record_entry (result, array_index, is_array) (Bracketed key v) =
     (case dict_store result key v of
        Inl e \<Rightarrow> Inl e
      | Inr result' \<Rightarrow>
          (if \<not> py_eq_int key array_index then Inr (result', array_index, False)
           else Inr (result', array_index + 1, is_array)))"
| "record_entry (result, array_index, is_array) (Named key v) =
     (case dict_store result (LStr key) v of
        Inl e \<Rightarrow> Inl e
      | Inr result' \<Rightarrow> Inr (result', array_index, False))"
| "record_entry (result, array_index, is_array) (Bare v) =
     (case dict_store result (LInt array_index) v of
        Inl e \<Rightarrow> Inl e
      | Inr result' \<Rightarrow> Inr (result', array_index + 1, is_array))"

text \<open>
  The parser proper. \<^verbatim>\<open>_parse_value\<close> and \<^verbatim>\<open>_parse_table\<close> call each other. Each method
  body is written first as a function of the methods it calls, and the recursive
  definition then ties the knot, with a bound on the number of nested calls and loop
  iterations as first argument; \<open>None\<close> means that the bound was reached (it is not a
  result of the Python code). \<open>Some (Inl e)\<close> is the exception \<open>e\<close>,
  \<open>Some (Inr (v, pos))\<close> the value and the position after it.
\<close>

type_synonym 'a parsed = "(error + 'a \<times> nat) option"

text \<open>
  The body of \<^verbatim>\<open>_parse_value\<close>; \<open>table_at\<close> stands for \<^verbatim>\<open>self._parse_table(content, .)\<close>.
\<close>

definition value_body :: "string \<Rightarrow> nat \<Rightarrow> (nat \<Rightarrow> lua_value parsed) \<Rightarrow> lua_value parsed" where
  "value_body content pos0 table_at =
     (let pos = skip_whitespace content pos0
      in if length content \<le> pos then Some (Inl LuaParseError)
         else if content ! pos = CHR ''{'' then table_at pos
         else if content ! pos = CHR 0x22 then
           (case parse_string content pos (CHR 0x22) of
              Inl e \<Rightarrow> Some (Inl e)
            | Inr (s, p) \<Rightarrow> Some (Inr (LStr s, p)))
         else if content ! pos = CHR 0x27 then
           (case parse_string content pos (CHR 0x27) of
              Inl e \<Rightarrow> Some (Inl e)
            | Inr (s, p) \<Rightarrow> Some (Inr (LStr s, p)))
         else if take 2 (drop pos content) = ''[['' then
           (case parse_long_string content pos of
              Inl e \<Rightarrow> Some (Inl e)
            | Inr (s, p) \<Rightarrow> Some (Inr (LStr s, p)))
         else
           (case match_token (drop pos content) of
              None \<Rightarrow> Some (Inl LuaParseError)
            | Some token \<Rightarrow>
                (case convert_token token of
                   Inl e \<Rightarrow> Some (Inl e)
                 | Inr v \<Rightarrow> Some (Inr (v, pos + length token)))))"

text \<open>
  The part of the loop body of \<^verbatim>\<open>_parse_table\<close> that reads one entry, at a position
  where the text has a character that is not a closing brace; \<open>value_at\<close> stands for
  \<^verbatim>\<open>self._parse_value(content, .)\<close>.
\<close>

definition entry_body :: "string \<Rightarrow> nat \<Rightarrow> (nat \<Rightarrow> lua_value parsed) \<Rightarrow> entry parsed" where
  "entry_body content pos value_at =
     (if content ! pos = CHR ''['' then
        (case value_at (skip_whitespace content (pos + 1)) of
           None \<Rightarrow> None
         | Some (Inl e) \<Rightarrow> Some (Inl e)
         | Some (Inr (key, p1)) \<Rightarrow>
             (let p2 = skip_whitespace content p1
              in if length content \<le> p2 \<or> content ! p2 \<noteq> CHR '']'' then Some (Inl LuaParseError)
                 else (let p3 = skip_whitespace content (p2 + 1)
                       in if length content \<le> p3 \<or> content ! p3 \<noteq> CHR ''=''
                          then Some (Inl LuaParseError)
                          else (case value_at (skip_whitespace content (p3 + 1)) of
                                  None \<Rightarrow> None
                                | Some (Inl e) \<Rightarrow> Some (Inl e)
                                | Some (Inr (v, p4)) \<Rightarrow> Some (Inr (Bracketed key v, p4))))))
      else if is_identifier_start content pos then
        (case match_ident_eq (drop pos content) of
           Some (name, n) \<Rightarrow>
             (case value_at (skip_whitespace content (pos + n)) of
                None \<Rightarrow> None
              | Some (Inl e) \<Rightarrow> Some (Inl e)
              | Some (Inr (v, p1)) \<Rightarrow> Some (Inr (Named name v, p1)))
         | None \<Rightarrow>
             (case value_at pos of
                None \<Rightarrow> None
              | Some (Inl e) \<Rightarrow> Some (Inl e)
              | Some (Inr (v, p1)) \<Rightarrow> Some (Inr (Bare v, p1))))
      else
        (case value_at pos of
           None \<Rightarrow> None
         | Some (Inl e) \<Rightarrow> Some (Inl e)
         | Some (Inr (v, p1)) \<Rightarrow> Some (Inr (Bare v, p1))))"

text \<open>\<^verbatim>\<open>pos = self._skip_whitespace(content, pos); if pos < len(content) and content[pos]
  in ",;": pos += 1\<close>, the end of the loop body.\<close>

definition skip_separator :: "string \<Rightarrow> nat \<Rightarrow> nat" where
  "skip_separator content pos1 =
     (let pos2 = skip_whitespace content pos1
      in if pos2 < length content \<and> (content ! pos2 = CHR '','' \<or> content ! pos2 = CHR '';'')
         then pos2 + 1 else pos2)"

text \<open>
  One round of the \<^verbatim>\<open>while pos < len(content)\<close> loop of \<^verbatim>\<open>_parse_table\<close>, together with
  what follows the loop: the loop is left by \<^verbatim>\<open>break\<close> at a closing brace, after which the
  result is built, and by its condition at the end of the text, where \<^verbatim>\<open>Expected '}'\<close> is
  raised. \<open>entry_at\<close> reads an entry, \<open>continue\<close> is the rest of the loop.
\<close>

definition loop_body ::
  "string \<Rightarrow> nat \<Rightarrow> table_state \<Rightarrow> (nat \<Rightarrow> entry parsed)
     \<Rightarrow> (nat \<Rightarrow> table_state \<Rightarrow> lua_value parsed) \<Rightarrow> lua_value parsed" where
  "loop_body content pos0 st entry_at continue =
     (if pos0 < length content then
        (let pos = skip_whitespace content pos0
         in if length content \<le> pos then Some (Inl LuaParseError)
            else if content ! pos = CHR ''}'' then
              (case table_result (snd (snd st)) (fst st) of
                 Inl e \<Rightarrow> Some (Inl e)
               | Inr v \<Rightarrow> Some (Inr (v, pos + 1)))
            else
              (case entry_at pos of
                 None \<Rightarrow> None
               | Some (Inl e) \<Rightarrow> Some (Inl e)
               | Some (Inr (en, pos1)) \<Rightarrow>
                   (case record_entry st en of
                      Inl e \<Rightarrow> Some (Inl e)
                    | Inr st' \<Rightarrow> continue (skip_separator content pos1) st')))
      else Some (Inl LuaParseError))"

fun parse_value :: "nat \<Rightarrow> string \<Rightarrow> nat \<Rightarrow> lua_value parsed"
  and parse_table :: "nat \<Rightarrow> string \<Rightarrow> nat \<Rightarrow> lua_value parsed"
  and table_loop :: "nat \<Rightarrow> string \<Rightarrow> nat \<Rightarrow> table_state \<Rightarrow> lua_value parsed"
  and parse_entry :: "nat \<Rightarrow> string \<Rightarrow> nat \<Rightarrow> entry parsed"
where
  "parse_value 0 content pos = None"
| "parse_value (Suc fuel) content pos =
     value_body content pos (\<lambda>p. parse_table fuel content p)"
| "parse_table 0 content start = None"
| "parse_table (Suc fuel) content start =
     (if length content \<le> start then Some (Inl IndexError)
      else if content ! start \<noteq> CHR ''{'' then Some (Inl LuaParseError)
      else table_loop fuel content (start + 1) ([], 1, True))"
| "table_loop 0 content pos st = None"
| "table_loop (Suc fuel) content pos st =
     loop_body content pos st (\<lambda>p. parse_entry fuel content p)
       (\<lambda>p st'. table_loop fuel content p st')"
| "parse_entry 0 content pos = None"
| "parse_entry (Suc fuel) content pos =
     entry_body content pos (\<lambda>p. parse_value fuel content p)"

section \<open>The table-literal parser: the top-level driver (LuaTableParser.parse)\<close>

text \<open>
  The pattern \<^verbatim>\<open>([a-zA-Z_][a-zA-Z0-9_]*)\s*=\s*(\{)\<close> matched at the start of a text:
  the identifier, the offset of the brace, and the length of the match (which ends with
  the brace).
\<close>

definition match_assignment :: "string \<Rightarrow> (string \<times> nat \<times> nat) option" where
  "match_assignment s =
     (case s of
        [] \<Rightarrow> None
      | c # r \<Rightarrow>
          (if is_ident_start c then
             (let name = takeWhile is_ident_char s;
                  r1 = drop (length name) s;
                  ws1 = takeWhile isspace r1;
                  r2 = drop (length ws1) r1
              in if take 1 r2 = ''='' then
                   (let ws2 = takeWhile isspace (drop 1 r2);
                        r3 = drop (length ws2) (drop 1 r2);
                        brace = length name + length ws1 + 1 + length ws2
                    in if take 1 r3 = ''{'' then Some (name, brace, brace + 1) else None)
                 else None)
           else None))"

text \<open>
  \<^verbatim>\<open>assignment_pattern.search(lua_content, pos)\<close>: the leftmost match that starts at or
  after \<open>pos\<close>, as \<^verbatim>\<open>(match.group(1), match.start(2), match.end())\<close>.
\<close>

fun search_in :: "string \<Rightarrow> nat \<Rightarrow> (string \<times> nat \<times> nat) option" where
  "search_in [] i = None"
| "search_in (c # s) i =
     (case match_assignment (c # s) of
        Some (name, brace, len) \<Rightarrow> Some (name, i + brace, i + len)
      | None \<Rightarrow> search_in s (Suc i))"

definition search_assignment :: "string \<Rightarrow> nat \<Rightarrow> (string \<times> nat \<times> nat) option" where
  "search_assignment content pos =
     (if pos \<le> length content then search_in (drop pos content) pos else None)"

text \<open>\<^verbatim>\<open>result[var_name] = table_value\<close> on the dict of variables.\<close>

fun assoc_set :: "(string \<times> 'v) list \<Rightarrow> string \<Rightarrow> 'v \<Rightarrow> (string \<times> 'v) list" where
  "assoc_set [] k v = [(k, v)]"
| "assoc_set ((k', v') # kvs) k v =
     (if k' = k then (k', v) # kvs else (k', v') # assoc_set kvs k v)"

text \<open>
  The loop \<^verbatim>\<open>while pos < len(lua_content)\<close> of \<^verbatim>\<open>parse\<close>. Only \<^verbatim>\<open>LuaParseError\<close> is
  caught (\<^verbatim>\<open>pos = match.end()\<close>); any other exception leaves \<^verbatim>\<open>parse\<close>.
\<close>

fun parse_from ::
  "nat \<Rightarrow> string \<Rightarrow> nat \<Rightarrow> (string \<times> lua_value) list
     \<Rightarrow> (error + (string \<times> lua_value) list) option" where
  "parse_from 0 content pos result = None"
| "parse_from (Suc fuel) content pos result =
     (if pos < length content then
        (case search_assignment content pos of
           None \<Rightarrow> Some (Inr result)
         | Some (var_name, table_start, match_end) \<Rightarrow>
             (case parse_table fuel content table_start of
                None \<Rightarrow> None
              | Some (Inr (table_value, end_pos)) \<Rightarrow>
                  parse_from fuel content end_pos (assoc_set result var_name table_value)
              | Some (Inl e) \<Rightarrow>
                  (if e = LuaParseError then parse_from fuel content match_end result
                   else Some (Inl e))))
      else Some (Inr result))"

definition parse :: "nat \<Rightarrow> string \<Rightarrow> (error + (string \<times> lua_value) list) option" where
  "parse fuel content = parse_from fuel content 0 []"

section \<open>Vocabulary for the properties of the parser\<close>

text \<open>
  The entries of a table in the order in which they are written: the loop of
  \<^verbatim>\<open>_parse_table\<close> without its bookkeeping, reading entries with \<open>parse_entry\<close> up to the
  closing brace.
\<close>

fun written_entries :: "nat \<Rightarrow> string \<Rightarrow> nat \<Rightarrow> (error + entry list \<times> nat) option" where
  "written_entries 0 content pos0 = None"
| "written_entries (Suc fuel) content pos0 =
     (if pos0 < length content then
        (if length content \<le> skip_whitespace content pos0 then Some (Inl LuaParseError)
         else if content ! skip_whitespace content pos0 = CHR ''}''
           then Some (Inr ([], skip_whitespace content pos0 + 1))
         else
           (case parse_entry fuel content (skip_whitespace content pos0) of
              None \<Rightarrow> None
            | Some (Inl e) \<Rightarrow> Some (Inl e)
            | Some (Inr (en, pos1)) \<Rightarrow>
                (case written_entries fuel content (skip_separator content pos1) of
                   None \<Rightarrow> None
                 | Some (Inl e) \<Rightarrow> Some (Inl e)
                 | Some (Inr (ens, p)) \<Rightarrow> Some (Inr (en # ens, p)))))
      else Some (Inl LuaParseError))"

text \<open>Recording a list of entries one after the other, as the loop does.\<close>

fun record_all :: "table_state \<Rightarrow> entry list \<Rightarrow> error + table_state" where
  "record_all st [] = Inr st"
| "record_all st (en # ens) =
     (case record_entry st en of Inl e \<Rightarrow> Inl e | Inr st' \<Rightarrow> record_all st' ens)"

text \<open>
  The entries carry the keys \<open>n\<close>, \<open>n + 1\<close>, ... in the order written: each entry is a
  bare value, or has a bracketed key that is an int (or bool) equal to the next index.
\<close>

fun follows_index :: "int \<Rightarrow> entry list \<Rightarrow> bool" where
  "follows_index n [] = True"
| "follows_index n (Bare v # ens) = follows_index (n + 1) ens"
| "follows_index n (Bracketed k v # ens) =
     (is_int_key k \<and> py_eq_int k n \<and> follows_index (n + 1) ens)"
| "follows_index n (Named k v # ens) = False"

text \<open>The keys of a dict are, in order, equal to \<open>m\<close>, \<open>m + 1\<close>, ...\<close>

fun keys_from :: "int \<Rightarrow> (lua_value \<times> lua_value) list \<Rightarrow> bool" where
  "keys_from m [] = True"
| "keys_from m (kv # d) = (py_eq_int (fst kv) m \<and> keys_from (m + 1) d)"

text \<open>Texts used to run the parser.\<close>

definition out_of_order_table :: string where
  "out_of_order_table = ''{ [2]=20, [1]=10 }''"

definition nested_in_failed_table :: string where
  "nested_in_failed_table = ''a = { b = { 1 }, '' @ [CHR 0x22] @ ''x''"

definition unclosed_then_inner :: string where
  "unclosed_then_inner = ''a = { x = {7}''"

section \<open>Properties of the backoff\<close>

lemma jitter_fraction_bounds:
  "0 \<le> real_of_int (h mod 100) / 100 \<and> real_of_int (h mod 100) / 100 < 1"
proof -
  have "0 \<le> h mod 100" "h mod 100 < 100" by simp_all
  then show ?thesis by simp
qed

lemma backoff_unfold:
  "calculate_backoff cfg n h =
     min (base_retry_delay cfg * 2 ^ n * (1 + 0.25 * (real_of_int (h mod 100) / 100)))
         (max_retry_delay cfg)"
  by (simp add: calculate_backoff_def Let_def algebra_simps)

lemma backoff_raw_mono:
  fixes base :: real
  assumes "0 \<le> base" "a < b" "0 \<le> ja" "ja < 1" "0 \<le> jb"
  shows "base * 2 ^ a * (1 + 0.25 * ja) \<le> base * 2 ^ b * (1 + 0.25 * jb)"
proof -
  have p: "(2::real) ^ Suc a \<le> 2 ^ b"
    using assms(2) by (intro power_increasing) simp_all
  have "base * 2 ^ a * (1 + 0.25 * ja) \<le> base * 2 ^ a * 2"
    using assms(1,4) by (intro mult_left_mono) simp_all
  also have "\<dots> = base * 2 ^ Suc a" by simp
  also have "\<dots> \<le> base * 2 ^ b"
    using p assms(1) by (intro mult_left_mono) simp_all
  also have "\<dots> \<le> base * 2 ^ b * (1 + 0.25 * jb)"
  proof -
    have "0 \<le> base * 2 ^ b" using assms(1) by simp
    moreover have "1 \<le> 1 + 0.25 * jb" using assms(5) by simp
    ultimately have "base * 2 ^ b * 1 \<le> base * 2 ^ b * (1 + 0.25 * jb)"
      by (intro mult_left_mono)
    then show ?thesis by simp
  qed
  finally show ?thesis .
qed

text \<open>
  C8. With a non-negative base delay, the delay computed for attempt \<open>a\<close> (whatever its
  jitter) is at most every delay that can be computed for a later attempt \<open>b\<close> (whatever
  its jitter), and no computed delay exceeds \<open>max_retry_delay\<close>.
\<close>

theorem calculate_backoff_monotone_capped:
  assumes "0 \<le> base_retry_delay cfg" and "a < b"
  shows "calculate_backoff cfg a ha \<le> calculate_backoff cfg b hb
         \<and> calculate_backoff cfg n h \<le> max_retry_delay cfg"
proof
  have "base_retry_delay cfg * 2 ^ a * (1 + 0.25 * (real_of_int (ha mod 100) / 100))
        \<le> base_retry_delay cfg * 2 ^ b * (1 + 0.25 * (real_of_int (hb mod 100) / 100))"
    using assms jitter_fraction_bounds [of ha] jitter_fraction_bounds [of hb]
    by (intro backoff_raw_mono) simp_all
  then show "calculate_backoff cfg a ha \<le> calculate_backoff cfg b hb"
    unfolding backoff_unfold by (rule min.mono) simp
  show "calculate_backoff cfg n h \<le> max_retry_delay cfg"
    unfolding backoff_unfold by simp
qed

theorem calculate_backoff_monotone_capped_witness:
  "0 \<le> base_retry_delay default_config \<and> (2::nat) < 3
   \<and> calculate_backoff default_config 2 99 \<le> calculate_backoff default_config 3 0
   \<and> calculate_backoff default_config 7 50 \<le> max_retry_delay default_config"
proof -
  have h1: "0 \<le> base_retry_delay default_config" by (simp add: default_config_def)
  have h2: "(2::nat) < 3" by simp
  show ?thesis
    using h1 h2 calculate_backoff_monotone_capped [OF h1 h2, of 99 0 7 50] by simp
qed

section \<open>Properties of the batch upload\<close>

lemma find_snoc:
  "find P (xs @ [x]) = (case find P xs of None \<Rightarrow> (if P x then Some x else None) | Some y \<Rightarrow> Some y)"
  by (induction xs) auto

lemma update_item_status_nth:
  "k < length q \<Longrightarrow>
   update_item_status q now i s err ! k =
     (if r_id (q ! k) = i
      then (q ! k)\<lparr> r_status := status_value s, r_last_error := err,
                    r_updated_at := isoformat now, r_attempts := r_attempts (q ! k) + 1 \<rparr>
      else q ! k)"
  by (simp add: update_item_status_def)

lemma length_update_item_status [simp]: "length (update_item_status q now i s err) = length q"
  by (simp add: update_item_status_def)

lemma apply_result_queue:
  "queue (apply_result clock st r) =
     update_item_status (queue st) (clock (reads st)) (res_id r)
       (if res_success r then UPLOADED else FAILED)
       (if res_success r then None else get_error r)"
  by (simp add: apply_result_def Let_def)

lemma apply_result_counts:
  "processed (apply_result clock st r) = processed st + (if res_success r then 1 else 0)"
  "failed (apply_result clock st r) = failed st + (if res_success r then 0 else 1)"
  "reads (apply_result clock st r) = Suc (reads st)"
  by (simp_all add: apply_result_def Let_def)

lemma foldl_apply_result_length:
  "length (queue (foldl (apply_result clock) st rs)) = length (queue st)"
  by (induction rs arbitrary: st) (simp_all add: apply_result_queue)

lemma foldl_apply_result_row:
  "k < length (queue st) \<Longrightarrow>
   r_id (queue (foldl (apply_result clock) st rs) ! k) = r_id (queue st ! k)
   \<and> r_status (queue (foldl (apply_result clock) st rs) ! k) = status_after rs (queue st ! k)"
proof (induction rs arbitrary: st)
  case Nil
  then show ?case by (simp add: status_after_def)
next
  case (Cons r rs)
  let ?fin = "apply_result clock st r"
  have k: "k < length (queue ?fin)" using Cons.prems by (simp add: apply_result_queue)
  have id1: "r_id (queue ?fin ! k) = r_id (queue st ! k)"
    using Cons.prems by (simp add: apply_result_queue update_item_status_nth)
  have st1: "r_status (queue ?fin ! k) =
      (if r_id (queue st ! k) = res_id r
       then status_value (if res_success r then UPLOADED else FAILED)
       else r_status (queue st ! k))"
    using Cons.prems by (simp add: apply_result_queue update_item_status_nth)
  have "status_after rs (queue ?fin ! k) = status_after (r # rs) (queue st ! k)"
    by (auto simp: status_after_def find_snoc id1 st1 split: option.splits)
  then show ?case using Cons.IH [OF k] id1 by simp
qed

lemma foldl_apply_result_counts:
  "processed (foldl (apply_result clock) st rs) = processed st + length (filter res_success rs)
   \<and> failed (foldl (apply_result clock) st rs) = failed st + length (filter (\<lambda>r. \<not> res_success r) rs)
   \<and> reads (foldl (apply_result clock) st rs) = reads st + length rs"
  by (induction rs arbitrary: st) (simp_all add: apply_result_counts)

lemma process_groups_all_succeed:
  assumes "\<forall>g\<in>set groups. \<exists>rs. send_batch (batch_endpoint (fst g)) (batch_payload (snd g)) = Inr rs"
  shows "process_groups send_batch clock st groups =
           Inr (foldl (apply_result clock) st
                  (concat (map (\<lambda>g. projr (send_batch (batch_endpoint (fst g)) (batch_payload (snd g))))
                             groups)))"
  using assms
proof (induction groups arbitrary: st)
  case Nil
  then show ?case by simp
next
  case (Cons g groups)
  obtain t type_items where g: "g = (t, type_items)" by (cases g)
  obtain rs where rs: "send_batch (batch_endpoint t) (batch_payload type_items) = Inr rs"
    using Cons.prems g by auto
  have rest: "\<forall>g\<in>set groups. \<exists>rs. send_batch (batch_endpoint (fst g)) (batch_payload (snd g)) = Inr rs"
    using Cons.prems by simp
  show ?case using Cons.IH [OF rest] g rs by simp
qed


text \<open>
  C7. When every request of a batch succeeds, the status written back is decided item by
  item from the server's results: each row ends with the status of the last result that
  names its id (\<open>uploaded\<close> on success, \<open>failed\<close> otherwise), a row that no result names
  keeps its status, and the counters count the results one by one. The witness runs the
  five-item batch whose third item the server rejects.
\<close>

theorem batch_results_applied_per_item:
  assumes "items \<noteq> []"
    and "\<forall>g\<in>set (group_by_type items).
           \<exists>rs. send_batch (batch_endpoint (fst g)) (batch_payload (snd g)) = Inr rs"
  shows "\<exists>res q' n'.
           process_upload_batch send_batch clock (q, n) items = Inr (res, q', n')
           \<and> length q' = length q
           \<and> (\<forall>k<length q. r_id (q' ! k) = r_id (q ! k)
                  \<and> r_status (q' ! k) = status_after (server_results send_batch items) (q ! k))
           \<and> items_processed res = length (filter res_success (server_results send_batch items))
           \<and> items_failed res
               = length (filter (\<lambda>r. \<not> res_success r) (server_results send_batch items))"
proof -
  let ?init = "\<lparr> queue = q, reads = n, processed = 0, failed = 0, errs = [] \<rparr>"
  let ?rs = "server_results send_batch items"
  let ?fin = "foldl (apply_result clock) ?init ?rs"
  have pg: "process_groups send_batch clock ?init (group_by_type items) = Inr ?fin"
    unfolding server_results_def by (rule process_groups_all_succeed [OF assms(2)])
  have run: "process_upload_batch send_batch clock (q, n) items =
      Inr (\<lparr> success = (failed ?fin = 0), items_processed = processed ?fin,
             items_failed = failed ?fin, errors = errs ?fin \<rparr>, queue ?fin, reads ?fin)"
    using assms(1) pg by (simp add: process_upload_batch_def)
  have len: "length (queue ?fin) = length q"
    by (simp add: foldl_apply_result_length)
  have rows: "\<forall>k<length q. r_id (queue ?fin ! k) = r_id (q ! k)
                \<and> r_status (queue ?fin ! k) = status_after ?rs (q ! k)"
    using foldl_apply_result_row [of _ ?init clock ?rs] by simp
  show ?thesis
    using run len rows foldl_apply_result_counts [of clock ?init ?rs] by simp
qed

lemma five_items_run:
  "(case process_upload_batch third_fails example_clock (foldl enqueue [] five_items, 0) five_items of
      Inl e \<Rightarrow> False
    | Inr (res, q', n') \<Rightarrow>
        map r_status q' = [''uploaded'', ''uploaded'', ''failed'', ''uploaded'', ''uploaded'']
        \<and> items_processed res = 4 \<and> items_failed res = 1)"
  by code_simp


theorem batch_results_applied_per_item_witness:
  "five_items \<noteq> []
   \<and> (\<exists>res q' n'.
         process_upload_batch third_fails example_clock (foldl enqueue [] five_items, 0) five_items
           = Inr (res, q', n')
         \<and> length q' = 5
         \<and> map r_status q' = [''uploaded'', ''uploaded'', ''failed'', ''uploaded'', ''uploaded'']
         \<and> items_processed res = 4 \<and> items_failed res = 1)"
proof -
  have h1: "five_items \<noteq> []" by code_simp
  have h2: "\<forall>g\<in>set (group_by_type five_items).
              \<exists>rs. third_fails (batch_endpoint (fst g)) (batch_payload (snd g)) = Inr rs"
    by (simp add: third_fails_def)
  have len: "length (foldl enqueue [] five_items) = 5" by code_simp
  show ?thesis
    using batch_results_applied_per_item
            [OF h1 h2, of example_clock "foldl enqueue [] five_items" 0]
          h1 len five_items_run
    by (auto split: sum.splits prod.splits)
qed

section \<open>Properties of the durable queue\<close>

lemma direction_roundtrip: "SyncDirection_of (direction_value d) = Inr d"
  by (cases d) (simp_all add: SyncDirection_of_def)

lemma status_roundtrip: "SyncStatus_of (status_value s) = Inr s"
  by (cases s) (simp_all add: SyncStatus_of_def)

lemma post_init_cases:
  "post_init sha256 item = Inr item' \<Longrightarrow>
   item' = item\<lparr>checksum := checksum item'\<rparr> \<and> checksum item' \<noteq> None
   \<and> (\<forall>c. checksum item = Some c \<longrightarrow> item' = item)"
  by (auto simp: post_init_def split: option.splits sum.splits)

lemma post_init_status_irrelevant:
  assumes "post_init sha256 item = Inr item'"
  shows "post_init sha256 (item\<lparr>status := s, updated_at := u, attempts := a, last_error := e\<rparr>)
         = Inr (item'\<lparr>status := s, updated_at := u, attempts := a, last_error := e\<rparr>)"
  using assms
  by (auto simp: post_init_def calculate_checksum_def split: option.splits sum.splits)


lemma sorted_items_str_keys:
  assumes "list_all (\<lambda>kv. is_str_key (fst kv)) kvs"
  shows "sorted_items kvs = Inr (sort_key (\<lambda>kv. json_key (fst kv)) kvs)"
proof (cases "length kvs \<le> 1")
  case True
  then have "kvs = [] \<or> (\<exists>x. kvs = [x])"
    by (cases kvs) (auto simp: length_Suc_conv)
  then show ?thesis by (auto simp: sorted_items_def)
next
  case False
  then show ?thesis using assms by (simp add: sorted_items_def)
qed

lemma json_key_inj: "is_str_key a \<Longrightarrow> is_str_key b \<Longrightarrow> json_key a = json_key b \<Longrightarrow> a = b"
  by (cases a; cases b) simp_all

lemma sort_key_permuted:
  assumes "mset ys = mset xs" and "inj_on f (set xs)"
  shows "sort_key f ys = sort_key f xs"
proof -
  have "mset ys = mset (sort_key f xs)" using assms(1) by simp
  moreover have "inj_on f (set ys)" using assms mset_eq_setD by metis
  moreover have "sorted (map f (sort_key f xs))" by simp
  ultimately show ?thesis by (rule sort_key_inj_key_eq)
qed

lemma json_dumps_sorted_permuted:
  assumes d: "distinct (map fst kvs)"
    and s: "list_all (\<lambda>kv. is_str_key (fst kv)) kvs"
    and m: "mset kvs' = mset kvs"
  shows "json_dumps_sorted (PDict kvs') = json_dumps_sorted (PDict kvs)"
proof -
  let ?g = "\<lambda>(k, v). (k, json_dumps_sorted v)"
  let ?f = "\<lambda>kv. json_key (fst kv)"
  have set_eq: "set kvs' = set kvs" using m by (rule mset_eq_setD)
  have s': "list_all (\<lambda>kv. is_str_key (fst kv)) kvs'"
    using s set_eq by (simp add: list_all_iff)
  have sg: "list_all (\<lambda>kv. is_str_key (fst kv)) (map ?g kvs)"
    using s by (auto simp: list_all_iff)
  have sg': "list_all (\<lambda>kv. is_str_key (fst kv)) (map ?g kvs')"
    using s' by (auto simp: list_all_iff)
  have mg: "mset (map ?g kvs') = mset (map ?g kvs)"
    using m by (metis mset_map)
  have inj: "inj_on ?f (set (map ?g kvs))"
  proof (rule inj_onI)
    fix x y
    assume x: "x \<in> set (map ?g kvs)" and y: "y \<in> set (map ?g kvs)" and e: "?f x = ?f y"
    obtain a where a: "a \<in> set kvs" "x = ?g a" using x by auto
    obtain b where b: "b \<in> set kvs" "y = ?g b" using y by auto
    have fx: "fst x = fst a" and fy: "fst y = fst b"
      using a b by (simp_all add: case_prod_beta)
    have "is_str_key (fst a)" "is_str_key (fst b)"
      using s a b by (simp_all add: list_all_iff)
    then have "fst a = fst b" using e fx fy by (intro json_key_inj) simp_all
    moreover have "inj_on fst (set kvs)" using d by (simp add: distinct_map)
    ultimately have "a = b" using a(1) b(1) by (meson inj_onD)
    then show "x = y" using a b by simp
  qed
  have "sorted_items (map ?g kvs') = sorted_items (map ?g kvs)"
    unfolding sorted_items_str_keys [OF sg] sorted_items_str_keys [OF sg']
    using sort_key_permuted [OF mg inj] by simp
  then show ?thesis by simp
qed

lemma item_of_row_keeps_checksum:
  assumes "item_of_row sha256 r = Inr reread" and "r_checksum r = Some c"
  shows "checksum reread = Some c"
  using assms
  by (auto simp: item_of_row_def post_init_def split: sum.splits)

text \<open>
  C9 (as amended). The checksum is fixed at creation and no store operation changes it.
  At construction (\<open>post_init\<close>) a checksum that is supplied is kept as it is, and only a
  missing one is computed, from the canonical encoding of the data; that encoding does not
  depend on the order in which the (string) keys of the payload were inserted. \<open>enqueue\<close>
  stores the item's checksum as it is, and the item read back from the stored row carries
  that checksum whatever hash function is at hand when it is read: it is not computed
  again. \<open>update_item_status\<close> on a queue changes, in the item read back from any row, only
  status, last_error, updated_at and attempts (attempts goes up by one), and only for the
  row whose id was given: checksum, data, item_type, direction, created_at and id of every
  item are what they were. \<open>remove_item\<close> and \<open>clear_completed\<close> only delete rows.
\<close>

theorem update_item_status_keeps_identity:
  assumes "k < length q" and "item_of_row sha256 (q ! k) = Inr item"
  shows "(\<exists>item'.
           item_of_row sha256 (update_item_status q now i s err ! k) = Inr item'
           \<and> checksum item' = checksum item \<and> data item' = data item
           \<and> item_type item' = item_type item \<and> direction item' = direction item
           \<and> created_at item' = created_at item \<and> item_id item' = item_id item
           \<and> (if item_id item = i
                then item' = item\<lparr> status := s, updated_at := now,
                                     attempts := attempts item + 1, last_error := err \<rparr>
                else item' = item))
         \<and> (\<forall>c. checksum new = Some c \<longrightarrow> post_init sha256 new = Inr new)
         \<and> (checksum new = None \<longrightarrow>
                post_init sha256 new =
                  (case json_dumps_sorted (data new) of
                     Inl e \<Rightarrow> Inl e
                   | Inr j \<Rightarrow> Inr (new\<lparr>checksum := Some (sha256 j)\<rparr>)))
         \<and> (\<forall>kvs kvs'. data new = PDict kvs \<and> distinct (map fst kvs)
                 \<and> list_all (\<lambda>kv. is_str_key (fst kv)) kvs \<and> mset kvs' = mset kvs
               \<longrightarrow> calculate_checksum sha256 (new\<lparr>data := PDict kvs'\<rparr>)
                     = calculate_checksum sha256 new)
         \<and> (\<forall>created other reread.
               post_init sha256 new = Inr created
                 \<and> item_of_row other (last (enqueue q created)) = Inr reread
               \<longrightarrow> checksum created \<noteq> None \<and> checksum reread = checksum created)
         \<and> r_checksum (last (enqueue q new)) = checksum new
         \<and> set (remove_item q j) \<subseteq> set q
         \<and> set (fst (clear_completed q cutoff)) \<subseteq> set q"
proof -
  have creation: "(\<forall>c. checksum new = Some c \<longrightarrow> post_init sha256 new = Inr new)
         \<and> (checksum new = None \<longrightarrow>
                post_init sha256 new =
                  (case json_dumps_sorted (data new) of
                     Inl e \<Rightarrow> Inl e
                   | Inr j \<Rightarrow> Inr (new\<lparr>checksum := Some (sha256 j)\<rparr>)))"
    by (auto simp: post_init_def calculate_checksum_def split: sum.splits)
  have canonical: "\<forall>kvs kvs'. data new = PDict kvs \<and> distinct (map fst kvs)
                 \<and> list_all (\<lambda>kv. is_str_key (fst kv)) kvs \<and> mset kvs' = mset kvs
               \<longrightarrow> calculate_checksum sha256 (new\<lparr>data := PDict kvs'\<rparr>)
                     = calculate_checksum sha256 new"
  proof (intro allI impI)
    fix kvs kvs'
    assume a: "data new = PDict kvs \<and> distinct (map fst kvs)
                 \<and> list_all (\<lambda>kv. is_str_key (fst kv)) kvs \<and> mset kvs' = mset kvs"
    then have "json_dumps_sorted (PDict kvs') = json_dumps_sorted (PDict kvs)"
      by (intro json_dumps_sorted_permuted) simp_all
    then show "calculate_checksum sha256 (new\<lparr>data := PDict kvs'\<rparr>)
                 = calculate_checksum sha256 new"
      using a by (simp add: calculate_checksum_def)
  qed
  have readback: "\<forall>created other reread.
               post_init sha256 new = Inr created
                 \<and> item_of_row other (last (enqueue q created)) = Inr reread
               \<longrightarrow> checksum created \<noteq> None \<and> checksum reread = checksum created"
  proof (intro allI impI)
    fix created other reread
    assume a: "post_init sha256 new = Inr created
                 \<and> item_of_row other (last (enqueue q created)) = Inr reread"
    then obtain c where c: "checksum created = Some c"
      using post_init_cases [of sha256 new created] by auto
    have "r_checksum (last (enqueue q created)) = Some c"
      using c by (simp add: enqueue_def)
    then have "checksum reread = Some c"
      using a item_of_row_keeps_checksum by blast
    then show "checksum created \<noteq> None \<and> checksum reread = checksum created"
      using c by simp
  qed
  have others: "r_checksum (last (enqueue q new)) = checksum new
         \<and> set (remove_item q j) \<subseteq> set q
         \<and> set (fst (clear_completed q cutoff)) \<subseteq> set q"
    by (auto simp: enqueue_def remove_item_def clear_completed_def Let_def)
  let ?r = "q ! k"
  obtain d where d: "SyncDirection_of (r_direction ?r) = Inr d"
    using assms(2) by (auto simp: item_of_row_def split: sum.splits)
  obtain s0 where s0: "SyncStatus_of (r_status ?r) = Inr s0"
    using assms(2) d by (auto simp: item_of_row_def split: sum.splits)
  let ?raw = "\<lparr> item_id = r_id ?r, item_type = r_item_type ?r, data = json_loads (r_data ?r),
                direction = d, status = s0, created_at = fromisoformat (r_created_at ?r),
                updated_at = fromisoformat (r_updated_at ?r), attempts = r_attempts ?r,
                last_error = r_last_error ?r, checksum = r_checksum ?r \<rparr>"
  have p: "post_init sha256 ?raw = Inr item"
    using assms(2) d s0 by (simp add: item_of_row_def)
  have idr: "item_id item = r_id ?r" and att: "attempts item = r_attempts ?r"
    using post_init_cases [OF p] by (metis SyncItem.select_convs SyncItem.surjective SyncItem.update_convs)+
  have frame: "\<exists>item'.
           item_of_row sha256 (update_item_status q now i s err ! k) = Inr item'
           \<and> checksum item' = checksum item \<and> data item' = data item
           \<and> item_type item' = item_type item \<and> direction item' = direction item
           \<and> created_at item' = created_at item \<and> item_id item' = item_id item
           \<and> (if item_id item = i
                then item' = item\<lparr> status := s, updated_at := now,
                                     attempts := attempts item + 1, last_error := err \<rparr>
                else item' = item)"
  proof (cases "r_id ?r = i")
    case False
    then show ?thesis
      using assms idr by (simp add: update_item_status_nth)
  next
    case True
    have "item_of_row sha256 (update_item_status q now i s err ! k)
          = post_init sha256 (?raw\<lparr>status := s, updated_at := now,
                                     attempts := r_attempts ?r + 1, last_error := err\<rparr>)"
      using assms(1) True d
      by (simp add: update_item_status_nth item_of_row_def status_roundtrip fromisoformat_def)
    also have "\<dots> = Inr (item\<lparr>status := s, updated_at := now,
                               attempts := r_attempts ?r + 1, last_error := err\<rparr>)"
      by (rule post_init_status_irrelevant [OF p])
    finally show ?thesis using True idr att by simp
  qed
  show ?thesis using frame creation canonical readback others by blast
qed

lemma unsorted_item_created:
  "post_init text_digest unsorted_item = Inr (unsorted_item\<lparr>checksum := Some ''{a:2,b:1,}''\<rparr>)"
  by code_simp

lemma created_row_reads_back:
  "item_of_row text_digest (enqueue [] (unsorted_item\<lparr>checksum := Some ''{a:2,b:1,}''\<rparr>) ! 0)
   = Inr (unsorted_item\<lparr>checksum := Some ''{a:2,b:1,}''\<rparr>)"
  by code_simp

theorem update_item_status_keeps_identity_witness:
  "(0::nat) < length (enqueue [] (unsorted_item\<lparr>checksum := Some ''{a:2,b:1,}''\<rparr>))
   \<and> post_init text_digest unsorted_item
       = Inr (unsorted_item\<lparr>checksum := Some ''{a:2,b:1,}''\<rparr>)
   \<and> calculate_checksum text_digest
         (unsorted_item\<lparr>data := PDict [(KStr ''a'', PInt 2), (KStr ''b'', PInt 1)]\<rparr>)
       = Inr ''{a:2,b:1,}''
   \<and> item_of_row text_digest
         (enqueue [] (unsorted_item\<lparr>checksum := Some ''{a:2,b:1,}''\<rparr>) ! 0)
       = Inr (unsorted_item\<lparr>checksum := Some ''{a:2,b:1,}''\<rparr>)
   \<and> item_of_row text_digest
         (update_item_status (enqueue [] (unsorted_item\<lparr>checksum := Some ''{a:2,b:1,}''\<rparr>))
            (Datetime ''2024-01-03T00:00:00'') ''1'' FAILED (Some ''boom'') ! 0)
       = Inr (unsorted_item\<lparr> checksum := Some ''{a:2,b:1,}'', status := FAILED,
                               updated_at := Datetime ''2024-01-03T00:00:00'',
                               attempts := 1, last_error := Some ''boom'' \<rparr>)"
proof -
  let ?created = "unsorted_item\<lparr>checksum := Some ''{a:2,b:1,}''\<rparr>"
  have h1: "(0::nat) < length (enqueue [] ?created)" by (simp add: enqueue_def)
  have h2: "item_of_row text_digest (enqueue [] ?created ! 0) = Inr ?created"
    by (rule created_row_reads_back)
  have i: "item_id ?created = ''1''" and a: "attempts ?created = 0"
    and d: "data unsorted_item = PDict [(KStr ''b'', PInt 1), (KStr ''a'', PInt 2)]"
    and n: "checksum unsorted_item = None"
    by (simp_all add: unsorted_item_def example_item_def)
  have c: "calculate_checksum text_digest unsorted_item = Inr ''{a:2,b:1,}''"
    by code_simp
  have m: "mset [(KStr ''a'', PInt 2), (KStr ''b'', PInt 1)]
           = mset [(KStr ''b'', PInt 1), (KStr ''a'', PInt 2)]"
    by simp
  note inst = update_item_status_keeps_identity
            [OF h1 h2, of "Datetime ''2024-01-03T00:00:00''" "''1''" FAILED "Some ''boom''"
               unsorted_item]
  have perm: "calculate_checksum text_digest
         (unsorted_item\<lparr>data := PDict [(KStr ''a'', PInt 2), (KStr ''b'', PInt 1)]\<rparr>)
       = calculate_checksum text_digest unsorted_item"
    using inst d m by simp
  have upd: "item_of_row text_digest
         (update_item_status (enqueue [] ?created)
            (Datetime ''2024-01-03T00:00:00'') ''1'' FAILED (Some ''boom'') ! 0)
       = Inr (?created\<lparr> status := FAILED,
                               updated_at := Datetime ''2024-01-03T00:00:00'',
                               attempts := 1, last_error := Some ''boom'' \<rparr>)"
    using inst i a by auto
  show ?thesis
    using h1 h2 unsorted_item_created perm c upd by simp
qed

text \<open>
  The claim as stated fails for an item built with a supplied checksum: construction
  keeps the supplied value, which is not the digest of the canonical encoding of the
  payload.
\<close>

theorem supplied_checksum_counterexample:
  "post_init text_digest str_key_item = Inr str_key_item
   \<and> checksum str_key_item = Some ''c0''
   \<and> calculate_checksum text_digest str_key_item = Inr ''{dps:[1,.,],}''"
  by code_simp

section \<open>Round trip through the durable queue\<close>

lemma dict_set_fresh: "k \<notin> fst ` set d \<Longrightarrow> dict_set d k v = d @ [(k, v)]"
  by (induction d) auto

lemma foldl_dict_set_distinct:
  "distinct (map fst kvs) \<Longrightarrow> fst ` set d \<inter> fst ` set kvs = {} \<Longrightarrow>
   foldl (\<lambda>d (k, v). dict_set d k v) d kvs = d @ kvs"
proof (induction kvs arbitrary: d)
  case Nil
  then show ?case by simp
next
  case (Cons kv kvs)
  obtain k v where kv: "kv = (k, v)" by (cases kv)
  have fresh: "k \<notin> fst ` set d" using Cons.prems(2) kv by auto
  have "foldl (\<lambda>d (k, v). dict_set d k v) (d @ [(k, v)]) kvs = (d @ [(k, v)]) @ kvs"
    using Cons.prems kv by (intro Cons.IH) auto
  then show ?case using fresh kv by (simp add: dict_set_fresh)
qed

lemma str_key_roundtrip: "is_str_key k \<Longrightarrow> KStr (json_key k) = k"
  by (cases k) simp_all

lemma loads_obj_eq:
  "foldl (\<lambda>d (k, v). dict_set d (KStr k) v) d kvs
   = foldl (\<lambda>d (k, v). dict_set d k v) d (map (\<lambda>(k, v). (KStr k, v)) kvs)"
  by (induction kvs arbitrary: d) (auto)

lemma json_roundtrip: "json_native v \<Longrightarrow> json_loads (json_dumps v) = v"
proof (induction v)
  case (PList xs)
  then show ?case by (simp add: list_all_iff map_idI)
next
  case (PDict kvs)
  have entry: "\<And>k v. (k, v) \<in> set kvs \<Longrightarrow> is_str_key k \<and> json_loads (json_dumps v) = v"
  proof -
    fix k v assume kv: "(k, v) \<in> set kvs"
    have "json_native v" "is_str_key k" using PDict.prems kv by (auto simp: list_all_iff)
    moreover have "v \<in> Basic_BNFs.snds (k, v)" by simp
    ultimately show "is_str_key k \<and> json_loads (json_dumps v) = v"
      using PDict.IH [OF kv] by simp
  qed
  have m: "map (\<lambda>(k, v). (KStr k, v)) (map (\<lambda>(k, v). (k, json_loads v))
             (map (\<lambda>(k, v). (json_key k, json_dumps v)) kvs)) = kvs"
  proof -
    have "map ((\<lambda>(k, v). (KStr k, v)) \<circ> (\<lambda>(k, v). (k, json_loads v))
             \<circ> (\<lambda>(k, v). (json_key k, json_dumps v))) kvs = kvs"
      using entry by (intro map_idI) (auto simp: str_key_roundtrip)
    then show ?thesis by (simp only: map_map comp_assoc)
  qed
  have d: "distinct (map fst kvs)" using PDict.prems by simp
  show ?case
    using foldl_dict_set_distinct [OF d, of "[]"]
    by (simp add: loads_obj_eq m del: map_map)
qed simp_all

lemma item_of_row_enqueued:
  assumes "json_native (data item)" and "checksum item \<noteq> None"
  shows "item_of_row sha256
           \<lparr> r_id = item_id item, r_item_type = item_type item,
             r_direction = direction_value (direction item),
             r_status = status_value (status item),
             r_data = json_dumps (data item), r_checksum = checksum item,
             r_created_at = isoformat (created_at item),
             r_updated_at = isoformat (updated_at item),
             r_attempts = attempts item, r_last_error = last_error item \<rparr> = Inr item"
proof -
  obtain c where c: "checksum item = Some c" using assms(2) by auto
  show ?thesis
    using assms(1) c
    by (simp add: item_of_row_def direction_roundtrip status_roundtrip post_init_def
        json_roundtrip fromisoformat_def)
qed

text \<open>
  C10 (as amended). For every sync item whose checksum is set (as it is after
  construction) and whose data is JSON-native (every dict key, at any depth, is a
  string), \<open>enqueue\<close> followed by \<open>dequeue_batch\<close> with the item's direction and status
  and a limit of at least one, on a queue holding no other row with that direction and
  status, returns exactly the original item, equal in every field.
\<close>

theorem enqueue_dequeue_roundtrip:
  assumes "json_native (data item)" and "checksum item \<noteq> None" and "1 \<le> limit"
    and "\<forall>r\<in>set q. r_id r \<noteq> item_id item \<longrightarrow>
           \<not> (r_direction r = direction_value (direction item)
              \<and> r_status r = status_value (status item))"
  shows "dequeue_batch sha256 (enqueue q item) (direction item) (status item) limit = Inr [item]"
proof -
  have f: "filter (\<lambda>r. r_id r \<noteq> item_id item
                       \<and> r_direction r = direction_value (direction item)
                       \<and> r_status r = status_value (status item)) q = []"
    using assms(4) by (auto simp: filter_empty_conv)
  have l: "sql_limit limit [x] = [x]" for x :: row
    using assms(3) by (cases "nat limit") (auto simp: sql_limit_def)
  show ?thesis
    using item_of_row_enqueued [OF assms(1,2), of sha256]
    by (simp add: dequeue_batch_def enqueue_def f l)
qed

theorem enqueue_dequeue_roundtrip_witness:
  "json_native (data str_key_item) \<and> checksum str_key_item \<noteq> None \<and> (1::int) \<le> 1
   \<and> dequeue_batch example_digest (enqueue [] str_key_item) UPLOAD PENDING 1
       = Inr [str_key_item]"
proof -
  have h1: "json_native (data str_key_item)" by code_simp
  have h2: "checksum str_key_item \<noteq> None" by (simp add: str_key_item_def example_item_def)
  have h3: "(1::int) \<le> 1" by simp
  have h4: "\<forall>r\<in>set []. r_id r \<noteq> item_id str_key_item \<longrightarrow>
              \<not> (r_direction r = direction_value (direction str_key_item)
                 \<and> r_status r = status_value (status str_key_item))"
    by simp
  have d: "direction str_key_item = UPLOAD" and s: "status str_key_item = PENDING"
    by (simp_all add: str_key_item_def example_item_def)
  show ?thesis
    using enqueue_dequeue_roundtrip [OF h1 h2 h3 h4, of example_digest] h1 h2 d s by simp
qed

text \<open>
  The claim as stated fails for a payload with an integer key: \<^verbatim>\<open>{1: "x"}\<close> is accepted
  by \<^verbatim>\<open>json.dumps\<close>, is stored as \<^verbatim>\<open>{"1": "x"}\<close> and comes back with the string key.
\<close>

theorem enqueue_dequeue_int_key_counterexample:
  "dequeue_batch example_digest (enqueue [] int_key_item) (direction int_key_item)
     (status int_key_item) 1
   = Inr [int_key_item\<lparr>data := PDict [(KStr ''1'', PStr ''x'')]\<rparr>]
   \<and> dequeue_batch example_digest (enqueue [] int_key_item) (direction int_key_item)
        (status int_key_item) 1 \<noteq> Inr [int_key_item]"
  by code_simp

section \<open>Properties of the per-request pipeline\<close>

lemma attempt_body_log:
  "attempt_body cfg env a st = (it, st1) \<Longrightarrow>
   send_log st1 = send_log st @ [(slept st, auth st)]"
  by (auto simp: attempt_body_def Let_def sleep_def
      split: http_outcome.splits sum.splits if_splits)

lemma attempt_body_refresh_calls:
  "attempt_body cfg env a st = (it, st1) \<Longrightarrow>
   refresh_calls st1 =
     refresh_calls st + (if a = 0 \<and> (\<exists>h. http env a = Response 401 h) then 1 else 0)"
  by (auto simp: attempt_body_def Let_def sleep_def
      split: http_outcome.splits sum.splits if_splits)

lemma attempt_body_late_401:
  "attempt_body cfg env a st = (it, st1) \<Longrightarrow> http env a = Response 401 h \<Longrightarrow> 0 < a \<Longrightarrow>
   it = Raise (AuthenticationError ''Authentication failed'')"
  by (auto simp: attempt_body_def Let_def)

lemma attempt_body_first_401:
  "http env 0 = Response 401 h \<Longrightarrow> refresh env (refresh_calls st) = Inr tok' \<Longrightarrow>
   attempt_body cfg env 0 st =
     (Continue, st\<lparr> send_log := send_log st @ [(slept st, auth st)],
                     refresh_calls := Suc (refresh_calls st), auth := tok' \<rparr>)"
  by (simp add: attempt_body_def Let_def)

lemma attempt_body_429:
  "attempt_body cfg env a st = (Continue, st1) \<Longrightarrow> http env a = Response 429 h \<Longrightarrow>
   slept st1 = slept st + pause_after_429 cfg env a h"
  by (auto simp: attempt_body_def Let_def sleep_def pause_after_429_def retry_after_of_def
      split: option.splits header_value.splits sum.splits if_splits)

lemma request_loop_401:
  assumes "request_loop cfg env a n st = (r, st')" and "length (send_log st) = a"
  shows "a \<le> length (send_log st') \<and> length (send_log st') \<le> a + n
         \<and> refresh_calls st' =
             refresh_calls st + (if a = 0 \<and> 0 < n \<and> (\<exists>h. http env 0 = Response 401 h) then 1 else 0)
         \<and> (\<forall>k h. a \<le> k \<and> 0 < k \<and> k < length (send_log st') \<and> http env k = Response 401 h
               \<longrightarrow> r = Inl (AuthenticationError ''Authentication failed''))"
  using assms
proof (induction n arbitrary: a st)
  case 0
  then show ?case by auto
next
  case (Suc n)
  obtain it st1 where b: "attempt_body cfg env a st = (it, st1)"
    by (cases "attempt_body cfg env a st")
  have log1: "send_log st1 = send_log st @ [(slept st, auth st)]"
    by (rule attempt_body_log [OF b])
  have len1: "length (send_log st1) = Suc a" using log1 Suc.prems(2) by simp
  have rc1: "refresh_calls st1 =
     refresh_calls st + (if a = 0 \<and> (\<exists>h. http env a = Response 401 h) then 1 else 0)"
    by (rule attempt_body_refresh_calls [OF b])
  show ?case
  proof (cases it)
    case Continue
    then have run: "request_loop cfg env (Suc a) n st1 = (r, st')"
      using Suc.prems(1) b by simp
    note ih = Suc.IH [OF run len1]
    have not401: "0 < a \<Longrightarrow> http env a \<noteq> Response 401 h" for h
      using attempt_body_late_401 [OF b] Continue by auto
    have late: "\<forall>k h. a \<le> k \<and> 0 < k \<and> k < length (send_log st') \<and> http env k = Response 401 h
               \<longrightarrow> r = Inl (AuthenticationError ''Authentication failed'')"
    proof (intro allI impI)
      fix k h
      assume k: "a \<le> k \<and> 0 < k \<and> k < length (send_log st') \<and> http env k = Response 401 h"
      have "k \<noteq> a" using k not401 by auto
      then have "Suc a \<le> k" using k by simp
      then show "r = Inl (AuthenticationError ''Authentication failed'')"
        using ih k by blast
    qed
    show ?thesis using ih rc1 late by auto
  next
    case (Return c)
    then have fin: "r = Inr c" "st' = st1" using Suc.prems(1) b by simp_all
    have "k < Suc a \<Longrightarrow> a \<le> k \<Longrightarrow> http env k \<noteq> Response 401 h \<or> k = 0" for k h
      using attempt_body_late_401 [OF b, of h] Return by (cases "k = a") auto
    then show ?thesis using fin len1 rc1 by auto
  next
    case (Raise e)
    then have fin: "r = Inl e" "st' = st1" using Suc.prems(1) b by simp_all
    have "k < Suc a \<Longrightarrow> a \<le> k \<Longrightarrow> 0 < k \<Longrightarrow> http env k = Response 401 h \<Longrightarrow>
          e = AuthenticationError ''Authentication failed''" for k h
      using attempt_body_late_401 [OF b, of h] Raise by (cases "k = a") auto
    then show ?thesis using fin len1 rc1 by auto
  qed
qed


lemma request_loop_timing:
  assumes "request_loop cfg env a n st = (r, st')"
  shows "\<exists>new. send_log st' = send_log st @ new
           \<and> (new \<noteq> [] \<longrightarrow> hd new = (slept st, auth st))
           \<and> (\<forall>j h. Suc j < length new \<and> http env (a + j) = Response 429 h
                 \<longrightarrow> fst (new ! Suc j) - fst (new ! j) = pause_after_429 cfg env (a + j) h)"
  using assms
proof (induction n arbitrary: a st)
  case 0
  then show ?case by auto
next
  case (Suc n)
  obtain it st1 where b: "attempt_body cfg env a st = (it, st1)"
    by (cases "attempt_body cfg env a st")
  have log1: "send_log st1 = send_log st @ [(slept st, auth st)]"
    by (rule attempt_body_log [OF b])
  show ?case
  proof (cases "it = Continue")
    case False
    then have "st' = st1" using Suc.prems b by (cases it) simp_all
    then have "send_log st' = send_log st @ [(slept st, auth st)]" using log1 by simp
    then show ?thesis by auto
  next
    case True
    then have run: "request_loop cfg env (Suc a) n st1 = (r, st')"
      using Suc.prems b by simp
    from Suc.IH [OF run] obtain new where
      n1: "send_log st' = send_log st1 @ new"
      and n2: "new \<noteq> [] \<longrightarrow> hd new = (slept st1, auth st1)"
      and n3: "\<forall>j h. Suc j < length new \<and> http env (Suc a + j) = Response 429 h
                 \<longrightarrow> fst (new ! Suc j) - fst (new ! j) = pause_after_429 cfg env (Suc a + j) h"
      by blast
    let ?new = "(slept st, auth st) # new"
    have a1: "send_log st' = send_log st @ ?new" using n1 log1 by simp
    have a3: "fst (?new ! Suc j) - fst (?new ! j) = pause_after_429 cfg env (a + j) h"
      if j: "Suc j < length ?new" and h: "http env (a + j) = Response 429 h" for j h
    proof (cases j)
      case 0
      have ne: "new \<noteq> []" using j 0 by auto
      then have "new ! 0 = (slept st1, auth st1)" using n2 by (simp add: hd_conv_nth)
      moreover have "slept st1 = slept st + pause_after_429 cfg env a h"
        using attempt_body_429 [of cfg env a st st1 h] b True h 0 by simp
      ultimately show ?thesis using 0 by simp
    next
      case (Suc j')
      then show ?thesis using n3 j h by simp
    qed
    show ?thesis
      using a1 a3 by (intro exI [of _ ?new]) simp
  qed
qed

lemma get_valid_token_calls:
  "snd (get_valid_token env) = (if early_refresh env then 1 else 0)"
  by (simp add: get_valid_token_def early_refresh_def split: option.splits sum.splits)

lemma request_not_entered:
  assumes "get_valid_token env = (Inl e, k)"
  shows "request cfg env
           = (Inl e, \<lparr> auth = [], send_log = [], slept = 0, refresh_calls = k,
                         last_exception = None \<rparr>)"
  using assms by (simp add: request_def)

lemma request_entered:
  assumes "get_valid_token env = (Inr tok, k)"
  shows "request cfg env
           = request_loop cfg env 0 (nat (max_retries cfg))
               \<lparr> auth = tok, send_log = [], slept = 0, refresh_calls = k,
                 last_exception = None \<rparr>"
  using assms by (simp add: request_def)

lemma request_loop_first_401:
  assumes run: "request_loop cfg env 0 (nat (max_retries cfg)) init = (r, st)"
    and init: "send_log init = []" "slept init = 0" "auth init = tok" "last_exception init = None"
    and h: "http env 0 = Response 401 h"
    and t: "refresh env (refresh_calls init) = Inr tok'"
  shows "if 1 < max_retries cfg
         then 2 \<le> length (send_log st) \<and> send_log st ! 0 = (0, tok) \<and> send_log st ! 1 = (0, tok')
         else if max_retries cfg = 1
         then r = Inl (SyncError ''Max retries exceeded'') \<and> length (send_log st) = 1
         else send_log st = []"
proof -
  define st1 where "st1 = init\<lparr> send_log := send_log init @ [(slept init, auth init)],
                        refresh_calls := Suc (refresh_calls init), auth := tok' \<rparr>"
  have b0: "attempt_body cfg env 0 init = (Continue, st1)"
    unfolding st1_def by (rule attempt_body_first_401 [OF h t])
  have log1: "send_log st1 = [(0, tok)]" and auth1: "auth st1 = tok'" and slept1: "slept st1 = 0"
    and exc1: "last_exception st1 = None"
    using init by (simp_all add: st1_def)
  consider (many) "1 < max_retries cfg" | (one) "max_retries cfg = 1" | (none) "max_retries cfg \<le> 0"
    by linarith
  then show ?thesis
  proof cases
    case many
    define m where "m = nat (max_retries cfg) - 2"
    have m: "nat (max_retries cfg) = Suc (Suc m)"
      using many by (simp add: m_def)
    have run1: "request_loop cfg env (Suc 0) (Suc m) st1 = (r, st)"
      using run b0 unfolding m by simp
    obtain it st2 where b1: "attempt_body cfg env (Suc 0) st1 = (it, st2)"
      by (cases "attempt_body cfg env (Suc 0) st1")
    have log2: "send_log st2 = [(0, tok), (0, tok')]"
      using attempt_body_log [OF b1] log1 auth1 slept1 by simp
    have "\<exists>new. send_log st = send_log st2 @ new"
    proof (cases "it = Continue")
      case True
      then have "request_loop cfg env (Suc (Suc 0)) m st2 = (r, st)"
        using run1 b1 by simp
      from request_loop_timing [OF this] show ?thesis by blast
    next
      case False
      then have "st = st2" using run1 b1 by (cases it) simp_all
      then show ?thesis by simp
    qed
    then show ?thesis using many log2 by auto
  next
    case one
    then have m: "nat (max_retries cfg) = Suc 0" by simp
    have e1: "request_loop cfg env 0 (Suc 0) init = request_loop cfg env (Suc 0) 0 st1"
      by (simp add: b0)
    have e2: "request_loop cfg env (Suc 0) 0 st1
                = (Inl (SyncError ''Max retries exceeded''), st1)"
      by (simp add: exc1)
    have "(r, st) = request_loop cfg env 0 (Suc 0) init"
      using run unfolding m by (rule sym)
    also note e1
    also note e2
    finally have "r = Inl (SyncError ''Max retries exceeded'')" and "st = st1"
      by blast+
    then show ?thesis using one log1 by simp
  next
    case none
    then have "nat (max_retries cfg) = 0" by simp
    then show ?thesis using run none init by auto
  qed
qed

text \<open>
  C4 (as amended). \<^verbatim>\<open>_request\<close> first obtains a token from \<^verbatim>\<open>get_valid_token()\<close>, which
  refreshes a stored token that is within the refresh buffer (\<open>early_refresh\<close>) and, when
  it raises (no stored token, or the refresh fails), ends the call before any request is
  sent. In the retry loop the token is refreshed only when the first attempt (attempt 0)
  is answered with 401. So the number of refreshes of a call is one for the early refresh,
  if any, plus one exactly when the loop is entered with a budget and attempt 0 is answered
  with 401: never more than two, and never more than one caused by a 401. After a
  successful refresh on the 401 the loop goes on to the next attempt of the retry budget,
  which sends the new token; the 401 has used up one attempt, so with \<open>max_retries = 1\<close>
  nothing is sent again and the call ends with \<open>SyncError ''Max retries exceeded''\<close>. A 401
  answered to any later attempt raises the fatal \<open>AuthenticationError\<close> without a refresh.
  No call issues more than \<open>max_retries\<close> requests.
\<close>

theorem request_401_policy:
  assumes "request cfg env = (r, st)"
  shows "refresh_calls st
           = (if early_refresh env then 1 else 0)
             + (if loop_entered env \<and> 0 < max_retries cfg \<and> (\<exists>h. http env 0 = Response 401 h)
                then 1 else 0)
         \<and> refresh_calls st \<le> 2
         \<and> length (send_log st) \<le> nat (max_retries cfg)
         \<and> (\<forall>e. fst (get_valid_token env) = Inl e \<longrightarrow> r = Inl e \<and> send_log st = [])
         \<and> (\<forall>k h. 0 < k \<and> k < length (send_log st) \<and> http env k = Response 401 h
               \<longrightarrow> r = Inl (AuthenticationError ''Authentication failed''))
         \<and> (\<forall>h tok tok'. fst (get_valid_token env) = Inr tok \<and> http env 0 = Response 401 h
                 \<and> refresh env (snd (get_valid_token env)) = Inr tok'
               \<longrightarrow> (if 1 < max_retries cfg
                    then 2 \<le> length (send_log st) \<and> send_log st ! 0 = (0, tok)
                         \<and> send_log st ! 1 = (0, tok')
                    else if max_retries cfg = 1
                    then r = Inl (SyncError ''Max retries exceeded'') \<and> length (send_log st) = 1
                    else send_log st = []))"
proof -
  obtain g k where g: "get_valid_token env = (g, k)"
    by (cases "get_valid_token env")
  have k: "k = (if early_refresh env then 1 else 0)"
    using get_valid_token_calls [of env] g by simp
  show ?thesis
  proof (cases g)
    case (Inl e)
    have "request cfg env
           = (Inl e, \<lparr> auth = [], send_log = [], slept = 0, refresh_calls = k,
                         last_exception = None \<rparr>)"
      using g Inl by (intro request_not_entered) simp
    then have r: "r = Inl e" and st: "send_log st = []" "refresh_calls st = k"
      using assms by auto
    have ne: "\<not> loop_entered env" using g Inl by (simp add: loop_entered_def)
    show ?thesis using r st ne k g Inl by simp
  next
    case (Inr tok)
    let ?init = "\<lparr> auth = tok, send_log = [], slept = 0, refresh_calls = k,
                   last_exception = None \<rparr>"
    have run: "request_loop cfg env 0 (nat (max_retries cfg)) ?init = (r, st)"
      using request_entered [of env tok k cfg] g Inr assms by simp
    have en: "loop_entered env" using g Inr by (simp add: loop_entered_def)
    have i: "length (send_log ?init) = 0" by simp
    have z: "refresh_calls ?init = k" by simp
    have main: "length (send_log st) \<le> nat (max_retries cfg)
      \<and> refresh_calls st =
           k + (if 0 < nat (max_retries cfg) \<and> (\<exists>h. http env 0 = Response 401 h) then 1 else 0)
      \<and> (\<forall>k h. 0 < k \<and> k < length (send_log st) \<and> http env k = Response 401 h
               \<longrightarrow> r = Inl (AuthenticationError ''Authentication failed''))"
      using request_loop_401 [OF run i] unfolding z by simp
    have first: "(if 1 < max_retries cfg
                    then 2 \<le> length (send_log st) \<and> send_log st ! 0 = (0, tok)
                         \<and> send_log st ! 1 = (0, tok')
                    else if max_retries cfg = 1
                    then r = Inl (SyncError ''Max retries exceeded'') \<and> length (send_log st) = 1
                    else send_log st = [])"
      if h: "http env 0 = Response 401 h" and t: "refresh env k = Inr tok'" for h tok'
      by (rule request_loop_first_401 [OF run _ _ _ _ h]) (simp_all add: t)
    have pos: "0 < nat (max_retries cfg) \<longleftrightarrow> 0 < max_retries cfg" by simp
    have calls: "refresh_calls st
           = (if early_refresh env then 1 else 0)
             + (if loop_entered env \<and> 0 < max_retries cfg \<and> (\<exists>h. http env 0 = Response 401 h)
                then 1 else 0)"
      using main en k unfolding pos by simp
    have le2: "refresh_calls st \<le> 2" unfolding calls by simp
    have gv: "fst (get_valid_token env) = Inr tok" "snd (get_valid_token env) = k"
      using g Inr by simp_all
    have len: "length (send_log st) \<le> nat (max_retries cfg)"
      and late: "\<forall>k h. 0 < k \<and> k < length (send_log st) \<and> http env k = Response 401 h
               \<longrightarrow> r = Inl (AuthenticationError ''Authentication failed'')"
      using main by blast+
    have early: "\<forall>e. fst (get_valid_token env) = Inl e \<longrightarrow> r = Inl e \<and> send_log st = []"
      unfolding gv by simp
    have frst: "\<forall>h tok'' tok'. fst (get_valid_token env) = Inr tok'' \<and> http env 0 = Response 401 h
                 \<and> refresh env (snd (get_valid_token env)) = Inr tok'
               \<longrightarrow> (if 1 < max_retries cfg
                    then 2 \<le> length (send_log st) \<and> send_log st ! 0 = (0, tok'')
                         \<and> send_log st ! 1 = (0, tok')
                    else if max_retries cfg = 1
                    then r = Inl (SyncError ''Max retries exceeded'') \<and> length (send_log st) = 1
                    else send_log st = [])"
      unfolding gv using first by blast
    show ?thesis
      using calls le2 len early late frst by blast
  qed
qed

lemma refreshed_run:
  "request default_config (answers [Response 401 None])
   = (Inr 200, \<lparr> auth = ''token2'', send_log = [(0, ''token1''), (0, ''token2'')], slept = 0,
                  refresh_calls = 1, last_exception = None \<rparr>)"
  by code_simp

theorem request_401_policy_witness:
  "request default_config (answers [Response 401 None])
   = (Inr 200, \<lparr> auth = ''token2'', send_log = [(0, ''token1''), (0, ''token2'')], slept = 0,
                  refresh_calls = 1, last_exception = None \<rparr>)
   \<and> refresh_calls (snd (request default_config (answers [Response 401 None]))) = 1
   \<and> \<not> early_refresh (answers [Response 401 None])
   \<and> loop_entered (answers [Response 401 None])
   \<and> length (send_log (snd (request default_config (answers [Response 401 None]))))
       \<le> nat (max_retries default_config)"
  using request_401_policy [OF refreshed_run] refreshed_run
  by (simp add: early_refresh_def loop_entered_def get_valid_token_def answers_def)

text \<open>
  The claim as stated fails in three ways. With a budget of one attempt, a 401 is followed
  by the refresh and then by no request at all: the refresh used up the attempt. A 401 on
  the second attempt (after a 503 on the first) raises \<open>AuthenticationError\<close> at once, with
  no refresh. And a call entered with a token within the refresh buffer whose first
  attempt is answered with 401 refreshes the token twice.
\<close>

theorem request_401_counterexample:
  "request one_try (answers [Response 401 None])
   = (Inl (SyncError ''Max retries exceeded''),
      \<lparr> auth = ''token2'', send_log = [(0, ''token1'')], slept = 0,
        refresh_calls = 1, last_exception = None \<rparr>)
   \<and> request default_config (answers [Response 503 None, Response 401 None])
   = (Inl (AuthenticationError ''Authentication failed''),
      \<lparr> auth = ''token1'', send_log = [(0, ''token1''), (1, ''token1'')], slept = 1,
        refresh_calls = 0, last_exception = Some (HTTPStatusError 503) \<rparr>)
   \<and> request default_config (near_expiry (answers [Response 401 None]))
   = (Inr 200,
      \<lparr> auth = ''token3'', send_log = [(0, ''token2''), (0, ''token3'')], slept = 0,
        refresh_calls = 2, last_exception = None \<rparr>)"
  by code_simp

text \<open>
  C5 (as amended). After a 429 the pipeline sleeps, before the next attempt, the
  \<^verbatim>\<open>Retry-After\<close> value in seconds when the header is present and not zero, 60 seconds
  when the header is absent, and the computed backoff of the current attempt when the
  header value is 0 (\<open>pause_after_429\<close>); so two consecutive requests whose first is
  answered with 429 are at least that far apart. No call issues more than \<open>max_retries\<close>
  requests.
\<close>

theorem request_429_wait:
  assumes "request cfg env = (r, st)"
  shows "length (send_log st) \<le> nat (max_retries cfg)
         \<and> (\<forall>k h. Suc k < length (send_log st) \<and> http env k = Response 429 h
               \<longrightarrow> fst (send_log st ! Suc k) - fst (send_log st ! k)
                     = pause_after_429 cfg env k h)"
proof -
  obtain g k where g: "get_valid_token env = (g, k)"
    by (cases "get_valid_token env")
  show ?thesis
  proof (cases g)
    case (Inl e)
    have "request cfg env
           = (Inl e, \<lparr> auth = [], send_log = [], slept = 0, refresh_calls = k,
                         last_exception = None \<rparr>)"
      using g Inl by (intro request_not_entered) simp
    then have "send_log st = []" using assms by auto
    then show ?thesis by simp
  next
    case (Inr tok)
    let ?init = "\<lparr> auth = tok, send_log = [], slept = 0, refresh_calls = k,
                   last_exception = None \<rparr>"
    have run: "request_loop cfg env 0 (nat (max_retries cfg)) ?init = (r, st)"
      using request_entered [of env tok k cfg] g Inr assms by simp
    have i: "length (send_log ?init) = 0" by simp
    have "length (send_log st) \<le> 0 + nat (max_retries cfg)"
      using request_loop_401 [OF run i] by blast
    moreover obtain new where new: "send_log st = send_log ?init @ new"
      and gaps: "\<forall>j h. Suc j < length new \<and> http env (0 + j) = Response 429 h
                   \<longrightarrow> fst (new ! Suc j) - fst (new ! j) = pause_after_429 cfg env (0 + j) h"
      using request_loop_timing [OF run] by blast
    have "send_log st = new" using new by simp
    then have "\<forall>k h. Suc k < length (send_log st) \<and> http env k = Response 429 h
                 \<longrightarrow> fst (send_log st ! Suc k) - fst (send_log st ! k)
                       = pause_after_429 cfg env k h"
      using gaps by simp
    ultimately show ?thesis by simp
  qed
qed

lemma retry_after_run:
  "request default_config (answers [Response 429 (Some (HInt 5))])
   = (Inr 200, \<lparr> auth = ''token1'', send_log = [(0, ''token1''), (5, ''token1'')], slept = 5,
                  refresh_calls = 0,
                  last_exception = Some (RateLimitError ''Rate limit exceeded. Retry after 5s'' 5) \<rparr>)"
  by code_simp

theorem request_429_wait_witness:
  "request default_config (answers [Response 429 (Some (HInt 5))])
   = (Inr 200, \<lparr> auth = ''token1'', send_log = [(0, ''token1''), (5, ''token1'')], slept = 5,
                  refresh_calls = 0,
                  last_exception = Some (RateLimitError ''Rate limit exceeded. Retry after 5s'' 5) \<rparr>)
   \<and> pause_after_429 default_config (answers [Response 429 (Some (HInt 5))]) 0 (Some (HInt 5)) = 5"
  using request_429_wait [OF retry_after_run] retry_after_run
  by (simp add: answers_def)

text \<open>
  The claim as stated fails when the header is absent: the pipeline then sleeps 60
  seconds, while the computed backoff of attempt 0 is one second under the default
  configuration.
\<close>

theorem request_429_no_header_counterexample:
  "request default_config (answers [Response 429 None])
   = (Inr 200, \<lparr> auth = ''token1'', send_log = [(0, ''token1''), (60, ''token1'')], slept = 60,
                  refresh_calls = 0,
                  last_exception = Some (RateLimitError ''Rate limit exceeded. Retry after 60s'' 60) \<rparr>)
   \<and> calculate_backoff default_config 0 (jitter_hash (answers [Response 429 None]) 0) = 1"
  by code_simp

section \<open>Properties of the rate limiter\<close>

lemma prune_split: "\<exists>D. w = D @ prune b w \<and> (\<forall>d\<in>set D. d < b)"
proof (induction w)
  case Nil
  then show ?case by simp
next
  case (Cons t w)
  then obtain D where D: "w = D @ prune b w" "\<forall>d\<in>set D. d < b" by blast
  show ?case
  proof (cases "t < b")
    case True
    have "t # w = (t # D) @ prune b (t # w)" using D(1) True by simp
    moreover have "\<forall>d\<in>set (t # D). d < b" using D(2) True by simp
    ultimately show ?thesis by blast
  next
    case False
    then have "t # w = [] @ prune b (t # w)" by simp
    then show ?thesis by (metis empty_iff list.set(1))
  qed
qed

lemma wait_loop_step:
  "limit \<le> int (length (t0 # rest)) \<Longrightarrow>
   wait_loop limit width (t0 # rest) ago clock (d # ticks)
   = wait_loop limit width
       (prune ((if 0 < t0 - ago then clock + (t0 - ago) else clock) + d - width) (t0 # rest))
       ((if 0 < t0 - ago then clock + (t0 - ago) else clock) + d - width)
       ((if 0 < t0 - ago then clock + (t0 - ago) else clock) + d) ticks"
  by (simp add: Let_def del: prune.simps)

lemma wait_loop_returns:
  assumes "wait_loop limit width w ago clock ticks = Some (Inr (w', clock', ticks'))"
    and "\<forall>d\<in>set ticks. 0 \<le> d"
  shows "clock \<le> clock' \<and> (\<forall>d\<in>set ticks'. 0 \<le> d) \<and> int (length w') < limit
         \<and> (\<exists>D. w = D @ w' \<and> (\<forall>d\<in>set D. d < clock' - width))"
  using assms
proof (induction limit width w ago clock ticks rule: wait_loop.induct)
  case (1 limit width w ago clock)
  then show ?case by (auto split: if_splits list.splits)
next
  case (2 limit width w ago clock d ticks)
  show ?case
  proof (cases "limit \<le> int (length w)")
    case False
    then show ?thesis using "2.prems" by auto
  next
    case True
    then obtain t0 rest where w: "w = t0 # rest"
      using "2.prems"(1) by (cases w) auto
    define woke where "woke = (if 0 < t0 - ago then clock + (t0 - ago) else clock)"
    define now where "now = woke + d"
    have step: "wait_loop limit width w ago clock (d # ticks)
               = wait_loop limit width (prune (now - width) w) (now - width) now ticks"
      unfolding w now_def woke_def using True [unfolded w] by (rule wait_loop_step)
    have run: "wait_loop limit width (prune (now - width) w) (now - width) now ticks
               = Some (Inr (w', clock', ticks'))"
      using "2.prems"(1) unfolding step .
    have pos: "\<forall>d\<in>set ticks. 0 \<le> d" and d0: "0 \<le> d" using "2.prems"(2) by simp_all
    have ih: "now \<le> clock' \<and> (\<forall>d\<in>set ticks'. 0 \<le> d) \<and> int (length w') < limit
         \<and> (\<exists>D. prune (now - width) w = D @ w' \<and> (\<forall>d\<in>set D. d < clock' - width))"
      using "2.IH" [OF True w refl refl refl refl] run pos
      unfolding woke_def now_def by blast
    then obtain D2 where D2: "prune (now - width) w = D2 @ w'" "\<forall>d\<in>set D2. d < clock' - width"
      by blast
    obtain D1 where D1: "w = D1 @ prune (now - width) w" "\<forall>d\<in>set D1. d < now - width"
      using prune_split by blast
    have "w = (D1 @ D2) @ w'" using D1(1) D2(1) by simp
    moreover have "\<forall>d\<in>set (D1 @ D2). d < clock' - width"
      using D1(2) D2(2) ih by fastforce
    moreover have "clock \<le> clock'" using ih d0 by (simp add: now_def woke_def split: if_splits)
    ultimately show ?thesis using ih by blast
  qed
qed


lemma acquire_returns:
  assumes "acquire rl clock ticks = Some (Inr (g, rl', clock', ticks'))"
    and "\<forall>d\<in>set ticks. 0 \<le> d"
  shows "clock \<le> g \<and> clock' = g \<and> (\<forall>d\<in>set ticks'. 0 \<le> d)
         \<and> rpm_limit rl' = rpm_limit rl \<and> rph_limit rl' = rph_limit rl
         \<and> (\<exists>D W. minute_window rl = D @ W \<and> minute_window rl' = W @ [g]
                \<and> (\<forall>d\<in>set D. d < g - 60) \<and> int (length W) < rpm_limit rl)
         \<and> (\<exists>D W. hour_window rl = D @ W \<and> hour_window rl' = W @ [g]
                \<and> (\<forall>d\<in>set D. d < g - 3600) \<and> int (length W) < rph_limit rl)"
proof -
  obtain d ticks1 where t: "ticks = d # ticks1"
    using assms(1) by (cases ticks) (simp_all add: acquire_def)
  define now where "now = clock + d"
  define mw where "mw = prune (now - 60) (minute_window rl)"
  define hw where "hw = prune (now - 3600) (hour_window rl)"
  define first where "first = wait_loop (rpm_limit rl) 60 mw (now - 60) now ticks1"
  have unf: "acquire rl clock ticks =
      (case first of
         None \<Rightarrow> None
       | Some (Inl e) \<Rightarrow> Some (Inl e)
       | Some (Inr (mw', clock2, ticks2)) \<Rightarrow>
           (case wait_loop (rph_limit rl) 3600 hw (now - 3600) clock2 ticks2 of
              None \<Rightarrow> None
            | Some (Inl e) \<Rightarrow> Some (Inl e)
            | Some (Inr (hw', clock3, ticks3)) \<Rightarrow>
                (case ticks3 of
                   [] \<Rightarrow> None
                 | d' # ticks4 \<Rightarrow>
                     Some (Inr (clock3 + d',
                                rl\<lparr> minute_window := mw' @ [clock3 + d'],
                                    hour_window := hw' @ [clock3 + d'] \<rparr>,
                                clock3 + d', ticks4)))))"
    unfolding t acquire_def first_def mw_def hw_def now_def
    by (simp add: Let_def split: option.splits sum.splits prod.splits list.splits)
  obtain mw' clock2 ticks2 where f: "first = Some (Inr (mw', clock2, ticks2))"
    using assms(1) unfolding unf by (auto split: option.splits sum.splits)
  define second where "second = wait_loop (rph_limit rl) 3600 hw (now - 3600) clock2 ticks2"
  obtain hw' clock3 ticks3 where s: "second = Some (Inr (hw', clock3, ticks3))"
    using assms(1) unfolding unf f second_def by (auto split: option.splits sum.splits)
  obtain d' ticks4 where t3: "ticks3 = d' # ticks4"
    using assms(1) unfolding unf f by (cases ticks3) (simp_all add: s [unfolded second_def])
  have res: "g = clock3 + d'" "clock' = clock3 + d'" "ticks' = ticks4"
    "rl' = rl\<lparr> minute_window := mw' @ [clock3 + d'], hour_window := hw' @ [clock3 + d'] \<rparr>"
    using assms(1) unfolding unf f by (auto simp: s [unfolded second_def] t3)
  have d0: "0 \<le> d" and p1: "\<forall>d\<in>set ticks1. 0 \<le> d" using assms(2) t by simp_all
  have w1: "now \<le> clock2 \<and> (\<forall>d\<in>set ticks2. 0 \<le> d) \<and> int (length mw') < rpm_limit rl
         \<and> (\<exists>D. mw = D @ mw' \<and> (\<forall>d\<in>set D. d < clock2 - 60))"
    using wait_loop_returns [OF f [unfolded first_def] p1] .
  then have p2: "\<forall>d\<in>set ticks2. 0 \<le> d" by blast
  have w2: "clock2 \<le> clock3 \<and> (\<forall>d\<in>set ticks3. 0 \<le> d) \<and> int (length hw') < rph_limit rl
         \<and> (\<exists>D. hw = D @ hw' \<and> (\<forall>d\<in>set D. d < clock3 - 3600))"
    using wait_loop_returns [OF s [unfolded second_def] p2] .
  have d'0: "0 \<le> d'" and p4: "\<forall>d\<in>set ticks4. 0 \<le> d" using w2 t3 by simp_all
  have order: "clock \<le> now" "now \<le> clock2" "clock2 \<le> clock3" "clock3 \<le> g"
    using d0 d'0 w1 w2 res(1) by (simp_all add: now_def)
  obtain Dm where Dm: "mw = Dm @ mw'" "\<forall>d\<in>set Dm. d < clock2 - 60" using w1 by blast
  obtain Dh where Dh: "hw = Dh @ hw'" "\<forall>d\<in>set Dh. d < clock3 - 3600" using w2 by blast
  obtain Pm where Pm: "minute_window rl = Pm @ mw" "\<forall>d\<in>set Pm. d < now - 60"
    unfolding mw_def using prune_split by blast
  obtain Ph where Ph: "hour_window rl = Ph @ hw" "\<forall>d\<in>set Ph. d < now - 3600"
    unfolding hw_def using prune_split by blast
  have m: "minute_window rl = (Pm @ Dm) @ mw' \<and> minute_window rl' = mw' @ [g]
           \<and> (\<forall>d\<in>set (Pm @ Dm). d < g - 60) \<and> int (length mw') < rpm_limit rl"
    using Pm Dm order w1 res by fastforce
  have h: "hour_window rl = (Ph @ Dh) @ hw' \<and> hour_window rl' = hw' @ [g]
           \<and> (\<forall>d\<in>set (Ph @ Dh). d < g - 3600) \<and> int (length hw') < rph_limit rl"
    using Ph Dh order w2 res by fastforce
  have "clock \<le> g \<and> clock' = g \<and> (\<forall>d\<in>set ticks'. 0 \<le> d)
         \<and> rpm_limit rl' = rpm_limit rl \<and> rph_limit rl' = rph_limit rl"
    using order res p4 by simp
  then show ?thesis using m h by blast
qed

lemma length_filter_mono:
  "(\<And>x. x \<in> set xs \<Longrightarrow> P x \<Longrightarrow> Q x) \<Longrightarrow> length (filter P xs) \<le> length (filter Q xs)"
  by (induction xs) auto

lemma in_window_append:
  "in_window width T (xs @ ys) = in_window width T xs + in_window width T ys"
  by (simp add: in_window_def)

lemma in_window_grant:
  assumes old: "\<forall>T. int (in_window width T H) \<le> N"
    and room: "int (length (filter (\<lambda>t. g - width \<le> t) H)) < N"
  shows "\<forall>T. int (in_window width T (H @ [g])) \<le> N"
proof
  fix T
  show "int (in_window width T (H @ [g])) \<le> N"
  proof (cases "g \<le> T")
    case False
    then have "in_window width T (H @ [g]) = in_window width T H"
      by (simp add: in_window_def)
    then show ?thesis using old by simp
  next
    case True
    have "in_window width T H \<le> length (filter (\<lambda>t. g - width \<le> t) H)"
      unfolding in_window_def using True by (intro length_filter_mono) auto
    moreover have "in_window width T (H @ [g]) \<le> in_window width T H + 1"
      by (simp add: in_window_def)
    ultimately show ?thesis using room by linarith
  qed
qed

lemma window_room:
  fixes width :: real
  assumes "H = D0 @ w" and "\<forall>d\<in>set D0. d < clock - width"
    and "w = D @ W" and "\<forall>d\<in>set D. d < g - width" and "clock \<le> g"
  shows "length (filter (\<lambda>t. g - width \<le> t) H) \<le> length W"
proof -
  have "\<not> g - width \<le> d" if "d \<in> set D0" for d
  proof -
    have "d < clock - width" using assms(2) that by blast
    then show ?thesis using assms(5) by linarith
  qed
  then have "filter (\<lambda>t. g - width \<le> t) D0 = []" by (simp add: filter_empty_conv)
  moreover have "\<not> g - width \<le> d" if "d \<in> set D" for d
  proof -
    have "d < g - width" using assms(4) that by blast
    then show ?thesis by linarith
  qed
  then have "filter (\<lambda>t. g - width \<le> t) D = []" by (simp add: filter_empty_conv)
  ultimately have "filter (\<lambda>t. g - width \<le> t) H = filter (\<lambda>t. g - width \<le> t) W"
    using assms(1,3) by simp
  then show ?thesis by simp
qed

lemma acquire_many_invariant:
  assumes "acquire_many n rl clock ticks = Some (Inr (gs, rl', clock', ticks'))"
    and "\<forall>d\<in>set ticks. 0 \<le> d"
    and "\<exists>D. H = D @ minute_window rl \<and> (\<forall>d\<in>set D. d < clock - 60)"
    and "\<exists>D. H = D @ hour_window rl \<and> (\<forall>d\<in>set D. d < clock - 3600)"
    and "\<forall>T. int (in_window 60 T H) \<le> rpm_limit rl"
    and "\<forall>T. int (in_window 3600 T H) \<le> rph_limit rl"
    and "sorted H" and "\<forall>t\<in>set H. t \<le> clock"
  shows "(\<forall>T. int (in_window 60 T (H @ gs)) \<le> rpm_limit rl)
         \<and> (\<forall>T. int (in_window 3600 T (H @ gs)) \<le> rph_limit rl)
         \<and> sorted (H @ gs)"
  using assms
proof (induction n arbitrary: rl clock ticks gs H)
  case 0
  then show ?case by simp
next
  case (Suc n)
  obtain g rl1 clock1 ticks1 where a: "acquire rl clock ticks = Some (Inr (g, rl1, clock1, ticks1))"
    using Suc.prems(1) by (auto split: option.splits sum.splits)
  obtain gs1 where rest: "acquire_many n rl1 clock1 ticks1 = Some (Inr (gs1, rl', clock', ticks'))"
    and gs: "gs = g # gs1"
    using Suc.prems(1) a by (auto split: option.splits sum.splits)
  note r = acquire_returns [OF a Suc.prems(2)]
  have cg: "clock \<le> g" and c1: "clock1 = g" and p1: "\<forall>d\<in>set ticks1. 0 \<le> d"
    and lim: "rpm_limit rl1 = rpm_limit rl" "rph_limit rl1 = rph_limit rl"
    using r by simp_all
  obtain Dm Wm where m: "minute_window rl = Dm @ Wm" "minute_window rl1 = Wm @ [g]"
    "\<forall>d\<in>set Dm. d < g - 60" "int (length Wm) < rpm_limit rl"
    using r by blast
  obtain Dh Wh where h: "hour_window rl = Dh @ Wh" "hour_window rl1 = Wh @ [g]"
    "\<forall>d\<in>set Dh. d < g - 3600" "int (length Wh) < rph_limit rl"
    using r by blast
  obtain Pm where Pm: "H = Pm @ minute_window rl" "\<forall>d\<in>set Pm. d < clock - 60"
    using Suc.prems(3) by blast
  obtain Ph where Ph: "H = Ph @ hour_window rl" "\<forall>d\<in>set Ph. d < clock - 3600"
    using Suc.prems(4) by blast
  let ?H = "H @ [g]"
  have roomm: "int (length (filter (\<lambda>t. g - 60 \<le> t) H)) < rpm_limit rl"
    using window_room [OF Pm m(1) m(3) cg] m(4) by linarith
  have roomh: "int (length (filter (\<lambda>t. g - 3600 \<le> t) H)) < rph_limit rl"
    using window_room [OF Ph h(1) h(3) cg] h(4) by linarith
  have i3: "\<exists>D. ?H = D @ minute_window rl1 \<and> (\<forall>d\<in>set D. d < clock1 - 60)"
  proof (intro exI conjI)
    show "?H = (Pm @ Dm) @ minute_window rl1" using Pm(1) m(1,2) by simp
    show "\<forall>d\<in>set (Pm @ Dm). d < clock1 - 60" using Pm(2) m(3) cg c1 by fastforce
  qed
  have i4: "\<exists>D. ?H = D @ hour_window rl1 \<and> (\<forall>d\<in>set D. d < clock1 - 3600)"
  proof (intro exI conjI)
    show "?H = (Ph @ Dh) @ hour_window rl1" using Ph(1) h(1,2) by simp
    show "\<forall>d\<in>set (Ph @ Dh). d < clock1 - 3600" using Ph(2) h(3) cg c1 by fastforce
  qed
  have i5: "\<forall>T. int (in_window 60 T ?H) \<le> rpm_limit rl1"
    unfolding lim by (rule in_window_grant [OF Suc.prems(5) roomm])
  have i6: "\<forall>T. int (in_window 3600 T ?H) \<le> rph_limit rl1"
    unfolding lim by (rule in_window_grant [OF Suc.prems(6) roomh])
  have i7: "sorted ?H" using Suc.prems(7,8) cg by (fastforce simp: sorted_append)
  have i8: "\<forall>t\<in>set ?H. t \<le> clock1" using Suc.prems(8) cg c1 by fastforce
  show ?case
    using Suc.IH [OF rest p1 i3 i4 i5 i6 i7 i8] by (simp add: gs lim)
qed

lemma spaced_grants:
  assumes bound: "\<forall>T. int (in_window width T G) \<le> N" and "sorted G"
    and k: "k + nat N < length G"
  shows "G ! k + width < G ! (k + nat N)"
proof (rule ccontr)
  assume "\<not> G ! k + width < G ! (k + nat N)"
  then have close: "G ! (k + nat N) - width \<le> G ! k" by simp
  let ?T = "G ! (k + nat N)"
  let ?S = "take (Suc (nat N)) (drop k G)"
  have lenS: "length ?S = Suc (nat N)" using k by simp
  have G: "G = take k G @ ?S @ drop (Suc (nat N)) (drop k G)"
    by (metis append_take_drop_id)
  have inS: "?T - width \<le> t \<and> t \<le> ?T" if ts: "t \<in> set ?S" for t
  proof -
    obtain i where "i < length ?S" "?S ! i = t"
      using ts by (meson in_set_conv_nth)
    then have i: "i < Suc (nat N)" "t = ?S ! i" using lenS by simp_all
    then have t: "t = G ! (k + i)" using k by simp
    have "G ! k \<le> G ! (k + i)" "G ! (k + i) \<le> G ! (k + nat N)"
      using assms(2) k i(1) by (auto intro!: sorted_nth_mono)
    then show ?thesis using t close by simp
  qed
  have "in_window width ?T ?S = length ?S"
    unfolding in_window_def using inS by (simp add: filter_id_conv del: take_Suc length_take)
  then have "in_window width ?T ?S = Suc (nat N)" using lenS by simp
  moreover have "in_window width ?T ?S \<le> in_window width ?T G"
    by (subst (2) G) (simp add: in_window_append del: take_Suc)
  ultimately have "Suc (nat N) \<le> in_window width ?T G" by simp
  then have "int (Suc (nat N)) \<le> int (in_window width ?T G)" by (simp only: of_nat_le_iff)
  also have "\<dots> \<le> N" using bound by blast
  finally have "int (Suc (nat N)) \<le> N" .
  then show False by (cases "0 \<le> N") simp_all
qed

text \<open>
  C6. Start from a fresh limiter with limits \<open>rpm\<close> and \<open>rph\<close> and let any number of
  calls of \<open>acquire\<close> complete, under a clock that never runs backwards. Then for every
  time \<open>T\<close> at most \<open>rpm\<close> of the granted timestamps lie in the trailing window
  \<open>[T - 60, T]\<close> and at most \<open>rph\<close> in \<open>[T - 3600, T]\<close>. Moreover a grant that comes
  \<open>rpm\<close> grants after another one is more than 60 seconds later than it (and \<open>rph\<close>
  grants after: more than 3600 seconds): the call that would be one too many for the
  window has not returned before the oldest timestamp of the window has aged out.
\<close>

theorem rate_limiter_window_bound:
  assumes "acquire_many n (RateLimiter_init rpm rph) clock ticks
             = Some (Inr (grants, rl, clock', ticks'))"
    and "\<forall>d\<in>set ticks. 0 \<le> d"
  shows "(\<forall>T. in_window 60 T grants \<le> nat rpm)
         \<and> (\<forall>T. in_window 3600 T grants \<le> nat rph)
         \<and> (\<forall>k. k + nat rpm < length grants \<longrightarrow> grants ! k + 60 < grants ! (k + nat rpm))
         \<and> (\<forall>k. k + nat rph < length grants \<longrightarrow> grants ! k + 3600 < grants ! (k + nat rph))"
proof (cases n)
  case 0
  then have "grants = []" using assms(1) by simp
  then show ?thesis by (simp add: in_window_def)
next
  case (Suc m)
  let ?rl = "RateLimiter_init rpm rph"
  have e: "minute_window ?rl = []" "hour_window ?rl = []"
    "rpm_limit ?rl = rpm" "rph_limit ?rl = rph"
    by (simp_all add: RateLimiter_init_def)
  obtain g rl1 clock1 ticks1 where a: "acquire ?rl clock ticks = Some (Inr (g, rl1, clock1, ticks1))"
    using assms(1) unfolding Suc by (auto split: option.splits sum.splits)
  have pos: "0 < rpm" "0 < rph"
    using acquire_returns [OF a assms(2)] unfolding e by auto
  have i3: "\<exists>D. [] = D @ minute_window ?rl \<and> (\<forall>d\<in>set D. d < clock - 60)"
    unfolding e by simp
  have i4: "\<exists>D. [] = D @ hour_window ?rl \<and> (\<forall>d\<in>set D. d < clock - 3600)"
    unfolding e by simp
  have i5: "\<forall>T. int (in_window 60 T []) \<le> rpm_limit ?rl"
    unfolding e using pos by (simp add: in_window_def)
  have i6: "\<forall>T. int (in_window 3600 T []) \<le> rph_limit ?rl"
    unfolding e using pos by (simp add: in_window_def)
  have i7: "sorted ([] :: real list)" and i8: "\<forall>t\<in>set ([] :: real list). t \<le> clock"
    by simp_all
  have inv: "(\<forall>T. int (in_window 60 T grants) \<le> rpm)
         \<and> (\<forall>T. int (in_window 3600 T grants) \<le> rph) \<and> sorted grants"
    using acquire_many_invariant [OF assms(1,2) i3 i4 i5 i6 i7 i8] unfolding e by simp
  have m: "in_window 60 T grants \<le> nat rpm" for T
  proof -
    have "int (in_window 60 T grants) \<le> rpm" using inv by blast
    then show ?thesis by linarith
  qed
  have h: "in_window 3600 T grants \<le> nat rph" for T
  proof -
    have "int (in_window 3600 T grants) \<le> rph" using inv by blast
    then show ?thesis by linarith
  qed
  have sm: "grants ! k + 60 < grants ! (k + nat rpm)" if "k + nat rpm < length grants" for k
    using spaced_grants [of 60 grants rpm k] inv that by blast
  have sh: "grants ! k + 3600 < grants ! (k + nat rph)" if "k + nat rph < length grants" for k
    using spaced_grants [of 3600 grants rph k] inv that by blast
  show ?thesis using m h sm sh by blast
qed

lemma three_grants:
  "acquire_many 3 (RateLimiter_init 2 100) 0 [1, 1, 1, 1, 1, 0, 0, 0, 1, 1]
   = Some (Inr ([2, 4, 64],
                \<lparr> rpm_limit = 2, rph_limit = 100, minute_window = [4, 64],
                  hour_window = [2, 4, 64] \<rparr>, 64, []))"
  by code_simp

theorem rate_limiter_window_bound_witness:
  "acquire_many 3 (RateLimiter_init 2 100) 0 [1, 1, 1, 1, 1, 0, 0, 0, 1, 1]
   = Some (Inr ([2, 4, 64],
                \<lparr> rpm_limit = 2, rph_limit = 100, minute_window = [4, 64],
                  hour_window = [2, 4, 64] \<rparr>, 64, []))
   \<and> in_window 60 64 [2, 4, 64] \<le> nat 2
   \<and> ([2, 4, 64] :: real list) ! 0 + 60 < [2, 4, 64] ! (0 + nat 2)"
proof -
  have pos: "\<forall>d\<in>set [1, 1, 1, 1, 1, 0, 0, 0, 1, 1 :: real]. 0 \<le> d" by simp
  show ?thesis
    using rate_limiter_window_bound [OF three_grants pos] three_grants by simp
qed

end
